theory Spec2Isabelle
  imports Complex_Main "HOL-Library.Log_Nat"
begin

section \<open>Float64 values\<close>

text \<open>
  A polars \<open>Float64\<close> cell and a Python \<open>float\<close> are IEEE-754 doubles. The model keeps
  the four kinds of value a double can be: a finite number, the two infinities and NaN.
  The result of an operation on finite values is the exact real result rounded to the
  nearest double, ties to the even significand (\<open>f64_round\<close>); a rounded result beyond
  the largest finite double overflows to an infinity, and the invalid operations
  (\<open>inf - inf\<close>, \<open>inf / inf\<close>, \<open>0 * inf\<close>) give NaN. The sign of zero is not modelled.
\<close>

datatype f64 = Fin real | PInf | NInf | NaN

definition f64_max :: real where
  "f64_max = (2 ^ 53 - 1) * 2 ^ 971"

text \<open>Rounding to the nearest integer, ties to the even one.\<close>

definition round_half_even :: "real \<Rightarrow> int" where
  "round_half_even x =
     (let f = \<lfloor>x\<rfloor>; d = x - of_int f
      in if d < 1 / 2 then f else if 1 / 2 < d then f + 1 else if even f then f else f + 1)"

text \<open>
  The doubles are the multiples of \<open>2 ^ - 1074\<close> with a significand of at most 53 bits.
  \<open>round_scaled s\<close> rounds a magnitude \<open>s\<close>, counted in units of \<open>2 ^ - 1074\<close>, to 53
  significant bits: \<open>f64_shift s\<close> is the number of low bits that do not fit (none for
  a subnormal magnitude, which is rounded to a whole number of units).
\<close>

definition f64_shift :: "real \<Rightarrow> nat" where
  "f64_shift s = nat (bitlen \<lfloor>s\<rfloor> - 53)"

definition round_scaled :: "real \<Rightarrow> real" where
  "round_scaled s = of_int (round_half_even (s / 2 ^ f64_shift s)) * 2 ^ f64_shift s"

definition f64_round :: "real \<Rightarrow> real" where
  "f64_round x = sgn x * (round_scaled (\<bar>x\<bar> * 2 ^ 1074) / 2 ^ 1074)"

definition f64_of_real :: "real \<Rightarrow> f64" where
  "f64_of_real r =
     (let y = f64_round r
      in if f64_max < y then PInf else if y < - f64_max then NInf else Fin y)"

fun f64_neg :: "f64 \<Rightarrow> f64" where
  "f64_neg (Fin r) = Fin (- r)"
| "f64_neg PInf = NInf"
| "f64_neg NInf = PInf"
| "f64_neg NaN = NaN"

fun f64_abs :: "f64 \<Rightarrow> f64" where
  "f64_abs (Fin r) = Fin \<bar>r\<bar>"
| "f64_abs PInf = PInf"
| "f64_abs NInf = PInf"
| "f64_abs NaN = NaN"

fun f64_add :: "f64 \<Rightarrow> f64 \<Rightarrow> f64" where
  "f64_add (Fin a) (Fin b) = f64_of_real (a + b)"
| "f64_add (Fin a) PInf = PInf"
| "f64_add (Fin a) NInf = NInf"
| "f64_add PInf (Fin b) = PInf"
| "f64_add PInf PInf = PInf"
| "f64_add PInf NInf = NaN"
| "f64_add NInf (Fin b) = NInf"
| "f64_add NInf PInf = NaN"
| "f64_add NInf NInf = NInf"
| "f64_add NaN y = NaN"
| "f64_add x NaN = NaN"

definition f64_sub :: "f64 \<Rightarrow> f64 \<Rightarrow> f64" where
  "f64_sub x y = f64_add x (f64_neg y)"

fun f64_mul :: "f64 \<Rightarrow> f64 \<Rightarrow> f64" where
  "f64_mul (Fin a) (Fin b) = f64_of_real (a * b)"
| "f64_mul (Fin a) PInf = (if a = 0 then NaN else if 0 < a then PInf else NInf)"
| "f64_mul (Fin a) NInf = (if a = 0 then NaN else if 0 < a then NInf else PInf)"
| "f64_mul PInf (Fin b) = (if b = 0 then NaN else if 0 < b then PInf else NInf)"
| "f64_mul NInf (Fin b) = (if b = 0 then NaN else if 0 < b then NInf else PInf)"
| "f64_mul PInf PInf = PInf"
| "f64_mul PInf NInf = NInf"
| "f64_mul NInf PInf = NInf"
| "f64_mul NInf NInf = PInf"
| "f64_mul NaN y = NaN"
| "f64_mul x NaN = NaN"

text \<open>Division by a non-zero divisor; Python raises on a zero divisor before it divides
  (\<open>py_truediv\<close> below).\<close>

fun f64_div :: "f64 \<Rightarrow> f64 \<Rightarrow> f64" where
  "f64_div (Fin a) (Fin b) = f64_of_real (a / b)"
| "f64_div (Fin a) PInf = Fin 0"
| "f64_div (Fin a) NInf = Fin 0"
| "f64_div PInf (Fin b) = (if 0 \<le> b then PInf else NInf)"
| "f64_div NInf (Fin b) = (if 0 \<le> b then NInf else PInf)"
| "f64_div PInf PInf = NaN"
| "f64_div PInf NInf = NaN"
| "f64_div NInf PInf = NaN"
| "f64_div NInf NInf = NaN"
| "f64_div NaN y = NaN"
| "f64_div x NaN = NaN"

text \<open>
  polars compares floats in a total order: NaN equals NaN and is greater than every
  other value. \<open>f64_le x y\<close> is \<open>x <= y\<close>; the other comparisons of the source are
  written with it.
\<close>

fun f64_le :: "f64 \<Rightarrow> f64 \<Rightarrow> bool" where
  "f64_le x NaN = True"
| "f64_le NaN y = False"
| "f64_le NInf y = True"
| "f64_le x NInf = False"
| "f64_le x PInf = True"
| "f64_le PInf y = False"
| "f64_le (Fin a) (Fin b) = (a \<le> b)"

definition f64_ge :: "f64 \<Rightarrow> f64 \<Rightarrow> bool" where
  "f64_ge x y = f64_le y x"

definition f64_lt :: "f64 \<Rightarrow> f64 \<Rightarrow> bool" where
  "f64_lt x y = (\<not> f64_le y x)"

definition f64_gt :: "f64 \<Rightarrow> f64 \<Rightarrow> bool" where
  "f64_gt x y = (\<not> f64_le x y)"

text \<open>\<open>x % 1\<close>, used by the source on absolute values only: the fractional part of a
  finite value, NaN otherwise.\<close>

fun f64_mod1 :: "f64 \<Rightarrow> f64" where
  "f64_mod1 (Fin r) = Fin (frac r)"
| "f64_mod1 x = NaN"

definition f64_is_finite :: "f64 \<Rightarrow> bool" where
  "f64_is_finite x = (case x of Fin r \<Rightarrow> True | _ \<Rightarrow> False)"

text \<open>\<open>Series.sum()\<close> of a Float64 column without nulls, the values added in row
  order.\<close>

definition f64_sum :: "f64 list \<Rightarrow> f64" where
  "f64_sum xs = foldl f64_add (Fin 0) xs"

subsection \<open>Python float operations of the summary\<close>

datatype error =
  HTTPException nat string
| ColumnNotFoundError string
| SchemaError string
| ZeroDivisionError

definition py_truediv :: "f64 \<Rightarrow> f64 \<Rightarrow> error + f64" where
  "py_truediv x y = (if y = Fin 0 then Inl ZeroDivisionError else Inr (f64_div x y))"

text \<open>\<open>round(x, 2)\<close>: the decimal value of \<open>x\<close> rounded to two places, ties to even,
  and the double nearest to that; infinities and NaN round to themselves.\<close>

fun py_round2 :: "f64 \<Rightarrow> f64" where
  "py_round2 (Fin r) = f64_of_real (of_int (round_half_even (r * 100)) / 100)"
| "py_round2 x = x"

section \<open>Strings\<close>

definition lower_char :: "char \<Rightarrow> char" where
  "lower_char c =
     (case map_of (zip ''ABCDEFGHIJKLMNOPQRSTUVWXYZ'' ''abcdefghijklmnopqrstuvwxyz'') c of
        Some d \<Rightarrow> d
      | None \<Rightarrow> c)"

text \<open>\<open>str.lower()\<close> and \<open>str.to_lowercase()\<close>, on ASCII text.\<close>

definition lower :: "string \<Rightarrow> string" where
  "lower s = map lower_char s"

fun starts_with :: "string \<Rightarrow> string \<Rightarrow> bool" where
  "starts_with [] s = True"
| "starts_with (p # ps) [] = False"
| "starts_with (p # ps) (c # cs) = (p = c \<and> starts_with ps cs)"

text \<open>Python's \<open>sub in s\<close> on strings.\<close>

fun contains :: "string \<Rightarrow> string \<Rightarrow> bool" where
  "contains sub [] = (sub = [])"
| "contains sub (c # cs) = (starts_with sub (c # cs) \<or> contains sub cs)"

text \<open>\<open>.str.replace(",", "")\<close>: polars' \<open>str.replace\<close> replaces the first match only
  (\<open>str.replace_all\<close> is the one that replaces every match).\<close>

fun str_replace_comma :: "string \<Rightarrow> string" where
  "str_replace_comma [] = []"
| "str_replace_comma (c # cs) = (if c = CHR '','' then cs else c # str_replace_comma cs)"

section \<open>Data frames\<close>

datatype dtype = Utf8 | Int64 | Float64 | Boolean | Datetime

text \<open>A cell: null, or a value of the column's type. A \<open>Datetime\<close> value is its number
  of microseconds since 1970-01-01.\<close>

datatype cell = Null | VStr string | VInt int | VFloat f64 | VBool bool | VTime int

record column =
  dtype :: dtype
  cells :: "cell list"

text \<open>A frame is the ordered list of its named columns; polars keeps the names of a
  frame distinct.\<close>

type_synonym frame = "(string \<times> column) list"

definition columns :: "frame \<Rightarrow> string list" where
  "columns df = map fst df"

definition height :: "frame \<Rightarrow> nat" where
  "height df = (case df of [] \<Rightarrow> 0 | (n, c) # rest \<Rightarrow> length (cells c))"

definition wf_frame :: "frame \<Rightarrow> bool" where
  "wf_frame df = (distinct (columns df) \<and> list_all (\<lambda>(n, c). length (cells c) = height df) df)"

definition get_column :: "frame \<Rightarrow> string \<Rightarrow> error + column" where
  "get_column df name =
     (case map_of df name of None \<Rightarrow> Inl (ColumnNotFoundError name) | Some c \<Rightarrow> Inr c)"

definition is_not_null :: "cell \<Rightarrow> bool" where
  "is_not_null c = (c \<noteq> Null)"

text \<open>\<open>df.filter(mask)\<close>: the rows whose mask entry is true, in every column.\<close>

definition filter_by :: "bool list \<Rightarrow> 'a list \<Rightarrow> 'a list" where
  "filter_by keep xs = map snd (filter fst (zip keep xs))"

definition filter_rows :: "bool list \<Rightarrow> frame \<Rightarrow> frame" where
  "filter_rows keep df = map (\<lambda>(n, c). (n, c\<lparr>cells := filter_by keep (cells c)\<rparr>)) df"

section \<open>What the model takes from polars\<close>

text \<open>
  Four library operations are parameters of the model, so that every theorem holds for
  whatever polars computes there:
  \<^item> \<open>utf8_to_f64\<close>: the non-strict cast of one string to Float64 (\<open>None\<close> when the
    string is not a number);
  \<^item> \<open>utf8_of_cell\<close>: the cast of one non-null, non-string cell to Utf8;
  \<^item> \<open>strptime\<close>: the non-strict parse of one string with one format (\<open>None\<close> when
    the string does not match), as microseconds since the epoch;
  \<^item> \<open>quantile99\<close>: \<open>quantile(0.99)\<close> of a column of non-null floats.
\<close>

record polars =
  utf8_to_f64 :: "string \<Rightarrow> f64 option"
  utf8_of_cell :: "cell \<Rightarrow> string"
  strptime :: "string \<Rightarrow> string \<Rightarrow> int option"
  quantile99 :: "f64 list \<Rightarrow> f64"

section \<open>Step 1: the net amount\<close>

text \<open>The columns whose lower-cased name satisfies a test, in column order:
  \<open>[c for c in df_full.columns if ... in c.lower()]\<close>. Each candidate is kept with its
  column: the names of a frame are distinct, so \<open>df_full[candidates[0]]\<close> is the column
  of the first candidate.\<close>

definition candidates :: "(string \<Rightarrow> bool) \<Rightarrow> frame \<Rightarrow> frame" where
  "candidates p df = filter (\<lambda>(n, c). p (lower n)) df"

definition debit_candidates :: "frame \<Rightarrow> frame" where
  "debit_candidates df = candidates (contains ''debit'') df"

definition credit_candidates :: "frame \<Rightarrow> frame" where
  "credit_candidates df = candidates (contains ''credit'') df"

definition amount_candidates :: "frame \<Rightarrow> frame" where
  "amount_candidates df = candidates (\<lambda>s. contains ''amount'' s \<or> contains ''amt'' s) df"

text \<open>\<open>.cast(pl.Utf8)\<close> on one cell.\<close>

definition cast_utf8 :: "polars \<Rightarrow> cell \<Rightarrow> string option" where
  "cast_utf8 pl c = (case c of Null \<Rightarrow> None | VStr s \<Rightarrow> Some s | _ \<Rightarrow> Some (utf8_of_cell pl c))"

text \<open>\<open>.cast(pl.Float64, strict=False)\<close> on one cell.\<close>

definition cast_f64 :: "polars \<Rightarrow> cell \<Rightarrow> f64 option" where
  "cast_f64 pl c =
     (case c of
        Null \<Rightarrow> None
      | VStr s \<Rightarrow> utf8_to_f64 pl s
      | VInt i \<Rightarrow> Some (f64_of_real (of_int i))
      | VFloat x \<Rightarrow> Some x
      | VBool b \<Rightarrow> Some (Fin (if b then 1 else 0))
      | VTime t \<Rightarrow> Some (f64_of_real (of_int t)))"

definition fill_null :: "'a \<Rightarrow> 'a option \<Rightarrow> 'a" where
  "fill_null d x = (case x of None \<Rightarrow> d | Some v \<Rightarrow> v)"

text \<open>The chain applied to the debit and to the credit column:
  \<open>.cast(pl.Utf8).str.replace(",", "").cast(pl.Float64, strict=False).fill_null(0.0)\<close>.\<close>

definition dr_cr_cell :: "polars \<Rightarrow> cell \<Rightarrow> f64" where
  "dr_cr_cell pl c =
     fill_null (Fin 0)
       (case map_option str_replace_comma (cast_utf8 pl c) of
          None \<Rightarrow> None
        | Some s \<Rightarrow> utf8_to_f64 pl s)"

definition dr_cr_series :: "polars \<Rightarrow> column \<Rightarrow> f64 list" where
  "dr_cr_series pl col = map (dr_cr_cell pl) (cells col)"

definition no_amount_column :: error where
  "no_amount_column =
     HTTPException 400 ''No amount column found (looked for 'amount', 'debit', 'credit')''"

definition amount_series :: "polars \<Rightarrow> frame \<Rightarrow> error + f64 option list" where
  "amount_series pl df =
     (case (debit_candidates df, credit_candidates df) of
        ((dn, dr_col) # ds, (cn, cr_col) # cs) \<Rightarrow>
          Inr (map Some (map2 f64_sub (dr_cr_series pl dr_col) (dr_cr_series pl cr_col)))
      | _ \<Rightarrow>
          (case amount_candidates df of
             (an, amt_col) # as \<Rightarrow> Inr (map (cast_f64 pl) (cells amt_col))
           | [] \<Rightarrow> Inl no_amount_column))"

section \<open>Step 2: the primary date and the selected frame\<close>

definition date_candidates :: "frame \<Rightarrow> frame" where
  "date_candidates df =
     candidates (\<lambda>s. contains ''date'' s \<or> contains ''effective'' s \<or> contains ''posted'' s) df"

definition key_fields :: "(string \<times> string) list" where
  "key_fields =
     [(''account'', ''account''), (''description'', ''description''), (''je_id'', ''je_id''),
      (''created_by'', ''created_by''), (''posted_by'', ''posted_by''),
      (''cost_center'', ''cost_center''), (''project'', ''project'')]"

definition key_field :: "frame \<Rightarrow> string \<times> string \<Rightarrow> frame" where
  "key_field df ca =
     (case candidates (contains (fst ca)) df of [] \<Rightarrow> [] | (n, c) # rest \<Rightarrow> [(snd ca, c)])"

definition amount_column :: "f64 option list \<Rightarrow> column" where
  "amount_column amt =
     \<lparr>dtype = Float64, cells = map (\<lambda>a. case a of None \<Rightarrow> Null | Some x \<Rightarrow> VFloat x) amt\<rparr>"

text \<open>\<open>df_full.select(select_list)\<close>: the amount, the first date candidate as
  \<open>posting_date\<close>, and the first candidate of each key field under its alias.\<close>

definition selected :: "frame \<Rightarrow> f64 option list \<Rightarrow> frame" where
  "selected df amt =
     [(''amount'', amount_column amt)]
     @ (case date_candidates df of [] \<Rightarrow> [] | (n, c) # rest \<Rightarrow> [(''posting_date'', c)])
     @ concat (map (key_field df) key_fields)"

section \<open>Smart date parsing\<close>

definition date_formats :: "string list" where
  "date_formats =
     [''%Y-%m-%d'', ''%d-%b-%Y'', ''%d-%b-%y'', ''%m/%d/%Y'', ''%d/%m/%Y'',
      ''%Y%m%d'', ''%B %d, %Y'', ''%b %d, %Y'', ''%d-%m-%Y'', ''%m-%d-%Y'']"

definition strptime_cell :: "polars \<Rightarrow> string \<Rightarrow> cell \<Rightarrow> cell" where
  "strptime_cell pl fmt c =
     (case c of
        VStr s \<Rightarrow> (case strptime pl fmt s of None \<Rightarrow> Null | Some t \<Rightarrow> VTime t)
      | _ \<Rightarrow> Null)"

text \<open>
  \<open>selected.with_columns(pl.col("posting_date").str.strptime(pl.Datetime, fmt, strict=False))\<close>:
  the \<open>str\<close> namespace raises on a column that is not a string column; on a string
  column the non-strict parse never raises, and a cell that does not match becomes null.
\<close>

definition with_strptime :: "polars \<Rightarrow> string \<Rightarrow> frame \<Rightarrow> error + frame" where
  "with_strptime pl fmt sel =
     (case get_column sel ''posting_date'' of
        Inl e \<Rightarrow> Inl e
      | Inr d \<Rightarrow>
          if dtype d = Utf8
          then Inr (map (\<lambda>(n, c).
                 if n = ''posting_date''
                 then (n, \<lparr>dtype = Datetime, cells = map (strptime_cell pl fmt) (cells c)\<rparr>)
                 else (n, c)) sel)
          else Inl (SchemaError ''invalid series dtype: expected String''))"

text \<open>
  The loop over the formats. Its state is the pair of the source's variables
  \<open>parsed\<close> (the format of the expression built last; \<open>None\<close> before the first
  iteration) and \<open>selected\<close>. Each iteration first assigns \<open>parsed\<close>, then runs
  \<open>with_columns\<close>: on success it breaks, on an exception it continues with \<open>parsed\<close>
  already assigned.
\<close>

fun strptime_loop :: "polars \<Rightarrow> string list \<Rightarrow> string option \<times> frame \<Rightarrow> string option \<times> frame" where
  "strptime_loop pl [] st = st"
| "strptime_loop pl (fmt # fmts) (parsed, sel) =
     (case with_strptime pl fmt sel of
        Inr sel' \<Rightarrow> (Some fmt, sel')
      | Inl e \<Rightarrow> strptime_loop pl fmts (Some fmt, sel))"

definition drop_column :: "string \<Rightarrow> frame \<Rightarrow> frame" where
  "drop_column name df = filter (\<lambda>(n, c). n \<noteq> name) df"

definition smart_date_parsing :: "polars \<Rightarrow> frame \<Rightarrow> frame" where
  "smart_date_parsing pl sel =
     (if ''posting_date'' \<in> set (columns sel)
      then (case strptime_loop pl date_formats (None, sel) of
              (None, sel') \<Rightarrow>
                if ''posting_date'' \<in> set (columns sel')
                then drop_column ''posting_date'' sel' else sel'
            | (Some fmt, sel') \<Rightarrow> sel')
      else sel)"

section \<open>Clean invalid rows\<close>

definition clean :: "frame \<Rightarrow> error + frame" where
  "clean sel =
     (case get_column sel ''amount'' of
        Inl e \<Rightarrow> Inl e
      | Inr a \<Rightarrow>
          (let cleaned = filter_rows (map is_not_null (cells a)) sel
           in case map_of cleaned ''posting_date'' of
                None \<Rightarrow> Inr cleaned
              | Some d \<Rightarrow> Inr (filter_rows (map is_not_null (cells d)) cleaned)))"

section \<open>Anomaly detection\<close>

definition bool_column :: "bool option list \<Rightarrow> column" where
  "bool_column bs =
     \<lparr>dtype = Boolean, cells = map (\<lambda>b. case b of None \<Rightarrow> Null | Some v \<Rightarrow> VBool v) bs\<rparr>"

text \<open>\<open>pl.lit(False)\<close>, broadcast to the height of the frame.\<close>

definition lit_False :: "nat \<Rightarrow> column" where
  "lit_False n = bool_column (replicate n (Some False))"

text \<open>The values of \<open>pl.col("amount")\<close>, a Float64 column.\<close>

definition f64_of_cell :: "cell \<Rightarrow> f64 option" where
  "f64_of_cell c = (case c of VFloat x \<Rightarrow> Some x | _ \<Rightarrow> None)"

definition amounts :: "frame \<Rightarrow> error + f64 option list" where
  "amounts df =
     (case get_column df ''amount'' of
        Inl e \<Rightarrow> Inl e
      | Inr a \<Rightarrow> Inr (map f64_of_cell (cells a)))"

fun drop_nulls :: "'a option list \<Rightarrow> 'a list" where
  "drop_nulls [] = []"
| "drop_nulls (None # xs) = drop_nulls xs"
| "drop_nulls (Some x # xs) = x # drop_nulls xs"

text \<open>1. \<open>(abs(amount) % 1 == 0) & (abs(amount) > 1000)\<close>\<close>

definition round_large_amount :: "frame \<Rightarrow> error + column" where
  "round_large_amount cleaned =
     (case amounts cleaned of
        Inl e \<Rightarrow> Inl e
      | Inr as \<Rightarrow>
          Inr (bool_column (map (map_option (\<lambda>x.
                 f64_mod1 (f64_abs x) = Fin 0 \<and> f64_gt (f64_abs x) (Fin 1000))) as)))"

text \<open>2. \<open>abs(amount) < 1\<close>\<close>

definition near_zero_amount :: "frame \<Rightarrow> error + column" where
  "near_zero_amount cleaned =
     (case amounts cleaned of
        Inl e \<Rightarrow> Inl e
      | Inr as \<Rightarrow> Inr (bool_column (map (map_option (\<lambda>x. f64_lt (f64_abs x) (Fin 1))) as)))"

definition suspicious_words :: "string list" where
  "suspicious_words =
     [''adjust'', ''misc'', ''manual'', ''override'', ''error'', ''temp'',
      ''reversal'', ''correction'', ''clearing'', ''suspense'', ''miscellaneous'']"

text \<open>3. \<open>description.str.to_lowercase().is_in([...])\<close>; the \<open>str\<close> namespace raises
  on a column that is not a string column, and a null description gives null.\<close>

definition suspicious_description :: "frame \<Rightarrow> error + column" where
  "suspicious_description cleaned =
     (case map_of cleaned ''description'' of
        None \<Rightarrow> Inr (lit_False (height cleaned))
      | Some d \<Rightarrow>
          if dtype d = Utf8
          then Inr (bool_column (map (\<lambda>c. case c of
                       VStr s \<Rightarrow> Some (lower s \<in> set suspicious_words)
                     | _ \<Rightarrow> None) (cells d)))
          else Inl (SchemaError ''invalid series dtype: expected String''))"

text \<open>\<open>dt.weekday()\<close>: Monday is 1 and Sunday is 7; 1970-01-01 was a Thursday.\<close>

definition weekday :: "int \<Rightarrow> int" where
  "weekday t = (t div 86400000000 + 3) mod 7 + 1"

text \<open>4. \<open>(posting_date.dt.weekday() >= 6).fill_null(False)\<close>; the \<open>dt\<close> namespace
  raises on a column that is not temporal.\<close>

definition weekend_entry :: "frame \<Rightarrow> error + column" where
  "weekend_entry cleaned =
     (case map_of cleaned ''posting_date'' of
        None \<Rightarrow> Inr (lit_False (height cleaned))
      | Some d \<Rightarrow>
          if dtype d = Datetime
          then Inr (bool_column (map (\<lambda>c. case c of
                       VTime t \<Rightarrow> Some (6 \<le> weekday t)
                     | _ \<Rightarrow> Some False) (cells d)))
          else Inl (SchemaError ''invalid series dtype: expected a temporal type''))"

text \<open>\<open>pl.struct(cols)\<close>: one tuple of cells per row.\<close>

fun struct :: "cell list list \<Rightarrow> nat \<Rightarrow> cell list list" where
  "struct [] n = replicate n []"
| "struct (c # cs) n = map2 (#) c (struct cs n)"

definition is_duplicated :: "cell list list \<Rightarrow> column" where
  "is_duplicated rows = bool_column (map (\<lambda>r. Some (1 < count_list rows r)) rows)"

text \<open>5. Duplicate Entry, over all columns but the amount.\<close>

definition duplicate_entry :: "frame \<Rightarrow> error + column" where
  "duplicate_entry cleaned =
     (let group_keys = filter (\<lambda>(n, c). n \<noteq> ''amount'') cleaned
      in if 0 < length group_keys
         then Inr (is_duplicated (struct (map (\<lambda>(n, c). cells c) group_keys) (height cleaned)))
         else Inr (lit_False (height cleaned)))"

text \<open>6. High-Value Entry: \<open>threshold\<close> is the quantile of the absolute amounts of the
  whole cleaned frame.\<close>

definition high_value_entry :: "polars \<Rightarrow> frame \<Rightarrow> error + column" where
  "high_value_entry pl cleaned =
     (if 10 < height cleaned
      then (case amounts cleaned of
              Inl e \<Rightarrow> Inl e
            | Inr as \<Rightarrow>
                (let threshold = quantile99 pl (map f64_abs (drop_nulls as))
                 in Inr (bool_column (map (map_option (\<lambda>x. f64_ge (f64_abs x) threshold)) as))))
      else Inr (lit_False (height cleaned)))"

text \<open>7. Repeating Entry, over account, amount and description.\<close>

definition repeating_entry :: "frame \<Rightarrow> error + column" where
  "repeating_entry cleaned =
     (case (map_of cleaned ''description'', map_of cleaned ''account'') of
        (Some d, Some a) \<Rightarrow>
          (case get_column cleaned ''amount'' of
             Inl e \<Rightarrow> Inl e
           | Inr am \<Rightarrow> Inr (is_duplicated (struct [cells a, cells am, cells d] (height cleaned))))
      | _ \<Rightarrow> Inr (lit_False (height cleaned)))"

definition anomaly_exprs :: "polars \<Rightarrow> frame \<Rightarrow> (string \<times> (error + column)) list" where
  "anomaly_exprs pl cleaned =
     [(''Round Large Amount'', round_large_amount cleaned),
      (''Near-Zero Amount'', near_zero_amount cleaned),
      (''Suspicious Description'', suspicious_description cleaned),
      (''Weekend Entry'', weekend_entry cleaned),
      (''Duplicate Entry'', duplicate_entry cleaned),
      (''High-Value Entry'', high_value_entry pl cleaned),
      (''Repeating Entry'', repeating_entry cleaned)]"

text \<open>\<open>with_columns\<close> evaluates every expression; an expression that raises fails the
  call.\<close>

fun evaluate :: "(string \<times> (error + column)) list \<Rightarrow> error + frame" where
  "evaluate [] = Inr []"
| "evaluate ((n, r) # rest) =
     (case r of
        Inl e \<Rightarrow> Inl e
      | Inr c \<Rightarrow> (case evaluate rest of Inl e \<Rightarrow> Inl e | Inr cs \<Rightarrow> Inr ((n, c) # cs)))"

definition with_columns :: "frame \<Rightarrow> (string \<times> (error + column)) list \<Rightarrow> error + frame" where
  "with_columns df exprs = (case evaluate exprs of Inl e \<Rightarrow> Inl e | Inr cs \<Rightarrow> Inr (df @ cs))"

section \<open>Build results\<close>

definition anomaly_cols :: "frame \<Rightarrow> string list" where
  "anomaly_cols results =
     filter (\<lambda>col. col \<noteq> ''amount'' \<and> col \<noteq> ''Has Anomaly'' \<and> contains ''Entry'' col)
       (columns results)"

text \<open>The OR of two Boolean cells with nulls (Kleene logic).\<close>

definition or_cell :: "cell \<Rightarrow> cell \<Rightarrow> cell" where
  "or_cell a b =
     (if a = VBool True \<or> b = VBool True then VBool True
      else if a = Null \<or> b = Null then Null
      else VBool False)"

text \<open>\<open>pl.any_horizontal(names)\<close> over a frame.\<close>

definition any_horizontal :: "frame \<Rightarrow> string list \<Rightarrow> error + column" where
  "any_horizontal df names =
     (case evaluate (map (\<lambda>n. (n, get_column df n)) names) of
        Inl e \<Rightarrow> Inl e
      | Inr cs \<Rightarrow>
          Inr \<lparr>dtype = Boolean,
               cells = foldl (map2 or_cell) (replicate (height df) (VBool False))
                         (map (\<lambda>(n, c). cells c) cs)\<rparr>)"

text \<open>\<open>df.filter(pl.col(name))\<close>: the rows where the Boolean column is true.\<close>

definition filter_col :: "frame \<Rightarrow> string \<Rightarrow> error + frame" where
  "filter_col df name =
     (case get_column df name of
        Inl e \<Rightarrow> Inl e
      | Inr c \<Rightarrow> Inr (filter_rows (map (\<lambda>x. x = VBool True) (cells c)) df))"

text \<open>The results frame with its \<open>Has Anomaly\<close> column, and \<open>anomaly_cols\<close>, which
  the source computes before it adds that column.\<close>

definition build_results :: "polars \<Rightarrow> frame \<Rightarrow> error + frame \<times> string list" where
  "build_results pl cleaned =
     (case with_columns cleaned (anomaly_exprs pl cleaned) of
        Inl e \<Rightarrow> Inl e
      | Inr results \<Rightarrow>
          (let cols = anomaly_cols results
           in case with_columns results [(''Has Anomaly'', any_horizontal results cols)] of
                Inl e \<Rightarrow> Inl e
              | Inr results' \<Rightarrow> Inr (results', cols)))"

section \<open>Summary and response\<close>

text \<open>\<open>abs(total_net) / (abs_total + 1e-6) * 100\<close>, in Python floats; the literal
  \<open>1e-6\<close> is the double nearest to a millionth.\<close>

definition imbalance_pct :: "f64 list \<Rightarrow> error + f64" where
  "imbalance_pct amts =
     (let total_net = f64_sum amts;
          abs_total = f64_sum (map f64_abs amts)
      in case py_truediv (f64_abs total_net) (f64_add abs_total (f64_of_real (1 / 1000000))) of
           Inl e \<Rightarrow> Inl e
         | Inr q \<Rightarrow> Inr (f64_mul q (Fin 100)))"

record summary =
  total_entries :: nat
  net_balance :: f64
  imbalance :: f64
  anomalies_found :: nat

record payload =
  summary :: summary
  charts_anomalies :: "(string \<times> nat) list"
  anomalies_data :: "(string \<times> cell) list list"

datatype response = Success payload | Failure error

text \<open>\<open>df.to_dicts()\<close>: one mapping from column name to cell per row.\<close>

definition to_dicts :: "frame \<Rightarrow> (string \<times> cell) list list" where
  "to_dicts df = map (\<lambda>i. map (\<lambda>(n, c). (n, cells c ! i)) df) [0..<height df]"

text \<open>\<open>{col: anomalies.filter(pl.col(col)).height for col in anomaly_cols}\<close>\<close>

fun chart_counts :: "frame \<Rightarrow> string list \<Rightarrow> error + (string \<times> nat) list" where
  "chart_counts anomalies [] = Inr []"
| "chart_counts anomalies (col # cols) =
     (case filter_col anomalies col of
        Inl e \<Rightarrow> Inl e
      | Inr hits \<Rightarrow>
          (case chart_counts anomalies cols of
             Inl e \<Rightarrow> Inl e
           | Inr rest \<Rightarrow> Inr ((col, height hits) # rest)))"

definition report :: "frame \<Rightarrow> string list \<Rightarrow> error + payload" where
  "report results cols =
     (case filter_col results ''Has Anomaly'' of
        Inl e \<Rightarrow> Inl e
      | Inr anomalies \<Rightarrow>
          (case amounts results of
             Inl e \<Rightarrow> Inl e
           | Inr as \<Rightarrow>
               (case imbalance_pct (drop_nulls as) of
                  Inl e \<Rightarrow> Inl e
                | Inr pct \<Rightarrow>
                    (case chart_counts anomalies cols of
                       Inl e \<Rightarrow> Inl e
                     | Inr counts \<Rightarrow>
                         Inr \<lparr>summary =
                                \<lparr>total_entries = height results,
                                 net_balance = py_round2 (f64_sum (drop_nulls as)),
                                 imbalance = py_round2 pct,
                                 anomalies_found = height anomalies\<rparr>,
                              charts_anomalies = counts,
                              anomalies_data = to_dicts anomalies\<rparr>))))"

text \<open>
  The body of the \<open>try\<close> block, from the decoded table \<open>df_full\<close> on, and the
  handler \<open>except Exception as e\<close> around it.
\<close>

definition file_is_empty :: error where
  "file_is_empty = HTTPException 400 ''File is empty''"

definition analyze_body :: "polars \<Rightarrow> frame \<Rightarrow> error + payload" where
  "analyze_body pl df_full =
     (if height df_full = 0 then Inl file_is_empty
      else case amount_series pl df_full of
             Inl e \<Rightarrow> Inl e
           | Inr amt \<Rightarrow>
               (case clean (smart_date_parsing pl (selected df_full amt)) of
                  Inl e \<Rightarrow> Inl e
                | Inr cleaned \<Rightarrow>
                    (case build_results pl cleaned of
                       Inl e \<Rightarrow> Inl e
                     | Inr (results, cols) \<Rightarrow> report results cols)))"

definition analyze_je :: "polars \<Rightarrow> frame \<Rightarrow> response" where
  "analyze_je pl df_full =
     (case analyze_body pl df_full of Inl e \<Rightarrow> Failure e | Inr p \<Rightarrow> Success p)"

section \<open>A reference instance of the library operations\<close>

text \<open>
  The examples below run the model on concrete tables. They use this instance:
  plain decimal numerals (an optional sign, digits, an optional fraction) for the cast
  to Float64, the ISO format for \<open>strptime\<close>, the decimal numeral of an integer and
  \<open>true\<close>/\<open>false\<close> for the cast to Utf8, and the nearest-rank quantile. It stands for
  polars on the inputs of the examples only: it reads no exponent, \<open>inf\<close> or \<open>nan\<close>, parses
  no format but the first of the list, and does not render a Float64 or Datetime cell
  (no example casts one to Utf8).
\<close>

definition digit_val :: "char \<Rightarrow> nat option" where
  "digit_val c = map_of (zip ''0123456789'' [0, 1, 2, 3, 4, 5, 6, 7, 8, 9]) c"

fun digits_val :: "string \<Rightarrow> nat \<Rightarrow> nat option" where
  "digits_val [] acc = Some acc"
| "digits_val (c # cs) acc =
     (case digit_val c of None \<Rightarrow> None | Some d \<Rightarrow> digits_val cs (10 * acc + d))"

definition parse_decimal :: "string \<Rightarrow> f64 option" where
  "parse_decimal s =
     (let neg = (case s of [] \<Rightarrow> False | c # cs \<Rightarrow> c = CHR ''-'');
          body = (case s of [] \<Rightarrow> [] | c # cs \<Rightarrow> if c = CHR ''-'' \<or> c = CHR ''+'' then cs else s);
          ip = takeWhile (\<lambda>c. c \<noteq> CHR ''.'') body;
          fp = drop 1 (dropWhile (\<lambda>c. c \<noteq> CHR ''.'') body)
      in if ip = [] \<and> fp = [] then None
         else case (digits_val ip 0, digits_val fp 0) of
                (Some i, Some f) \<Rightarrow>
                  Some (f64_of_real ((if neg then - 1 else 1)
                                     * (of_nat i + of_nat f / 10 ^ length fp)))
              | _ \<Rightarrow> None)"

function show_nat :: "nat \<Rightarrow> string" where
  "show_nat n =
     (if n < 10 then [''0123456789'' ! n]
      else show_nat (n div 10) @ [''0123456789'' ! (n mod 10)])"
  by pat_completeness auto
termination
  by (relation "measure id") auto

definition show_int :: "int \<Rightarrow> string" where
  "show_int i = (if i < 0 then CHR ''-'' # show_nat (nat (- i)) else show_nat (nat i))"

definition ref_utf8_of_cell :: "cell \<Rightarrow> string" where
  "ref_utf8_of_cell c =
     (case c of
        VInt i \<Rightarrow> show_int i
      | VBool b \<Rightarrow> (if b then ''true'' else ''false'')
      | _ \<Rightarrow> [])"

definition days_from_civil :: "int \<Rightarrow> int \<Rightarrow> int \<Rightarrow> int" where
  "days_from_civil y m d =
     (let y' = (if m \<le> 2 then y - 1 else y);
          era = y' div 400;
          yoe = y' - era * 400;
          doy = (153 * (if 2 < m then m - 3 else m + 9) + 2) div 5 + d - 1;
          doe = yoe * 365 + yoe div 4 - yoe div 100 + doy
      in era * 146097 + doe - 719468)"

definition days_in_month :: "int \<Rightarrow> int \<Rightarrow> int" where
  "days_in_month y m =
     (if m = 2 then (if y mod 4 = 0 \<and> (y mod 100 \<noteq> 0 \<or> y mod 400 = 0) then 29 else 28)
      else if m = 4 \<or> m = 6 \<or> m = 9 \<or> m = 11 then 30 else 31)"

definition ref_strptime :: "string \<Rightarrow> string \<Rightarrow> int option" where
  "ref_strptime fmt s =
     (if fmt = ''%Y-%m-%d'' \<and> length s = 10 \<and> s ! 4 = CHR ''-'' \<and> s ! 7 = CHR ''-''
      then (case (digits_val (take 4 s) 0, digits_val (take 2 (drop 5 s)) 0,
                  digits_val (drop 8 s) 0) of
              (Some y, Some m, Some d) \<Rightarrow>
                if 1 \<le> m \<and> m \<le> 12 \<and> 1 \<le> d \<and> int d \<le> days_in_month (int y) (int m)
                then Some (days_from_civil (int y) (int m) (int d) * 86400000000)
                else None
            | _ \<Rightarrow> None)
      else None)"

fun f64_insort :: "f64 \<Rightarrow> f64 list \<Rightarrow> f64 list" where
  "f64_insort x [] = [x]"
| "f64_insort x (y # ys) = (if f64_le x y then x # y # ys else y # f64_insort x ys)"

definition f64_sort :: "f64 list \<Rightarrow> f64 list" where
  "f64_sort xs = foldr f64_insort xs []"

definition ref_quantile99 :: "f64 list \<Rightarrow> f64" where
  "ref_quantile99 xs =
     (if xs = [] then NaN
      else f64_sort xs ! nat \<lfloor>(of_nat (length xs - 1) * 99 / 100 + 1 / 2 :: real)\<rfloor>)"

definition ref_polars :: polars where
  "ref_polars =
     \<lparr>utf8_to_f64 = parse_decimal, utf8_of_cell = ref_utf8_of_cell,
      strptime = ref_strptime, quantile99 = ref_quantile99\<rparr>"

section \<open>Auxiliary definitions for the statements\<close>

text \<open>The row cleaner as the specification words it: row \<open>i\<close> of the selected frame
  survives when its amount is not null and, if there is a \<open>posting_date\<close> column, its
  posting date is not null.\<close>

definition survives :: "frame \<Rightarrow> nat \<Rightarrow> bool" where
  "survives sel i =
     ((case map_of sel ''amount'' of None \<Rightarrow> False | Some a \<Rightarrow> cells a ! i \<noteq> Null)
      \<and> (case map_of sel ''posting_date'' of None \<Rightarrow> True | Some d \<Rightarrow> cells d ! i \<noteq> Null))"

text \<open>The \<open>posting_date\<close> entry of the select list.\<close>

definition date_part :: "frame \<Rightarrow> frame" where
  "date_part df = (case date_candidates df of [] \<Rightarrow> [] | (n, c) # rest \<Rightarrow> [(''posting_date'', c)])"

text \<open>What \<open>with_columns\<close> makes of a string \<open>posting_date\<close> column under the
  first format of the list.\<close>

definition parse_first_format :: "polars \<Rightarrow> frame \<Rightarrow> frame" where
  "parse_first_format pl sel =
     map (\<lambda>(n, c).
            if n = ''posting_date''
            then (n, \<lparr>dtype = Datetime, cells = map (strptime_cell pl ''%Y-%m-%d'') (cells c)\<rparr>)
            else (n, c)) sel"

text \<open>A reported percentage that is a finite number between 0 and 100.\<close>

definition in_percent_range :: "f64 \<Rightarrow> bool" where
  "in_percent_range x = (case x of Fin r \<Rightarrow> 0 \<le> r \<and> r \<le> 100 | _ \<Rightarrow> False)"

text \<open>The conditions under which the request fails: no amount-bearing column, a
  description column that is not a string column, a date column that is neither a
  string column nor a temporal one.\<close>

definition amount_bearing :: "frame \<Rightarrow> bool" where
  "amount_bearing df =
     ((debit_candidates df \<noteq> [] \<and> credit_candidates df \<noteq> []) \<or> amount_candidates df \<noteq> [])"

definition description_raises :: "frame \<Rightarrow> bool" where
  "description_raises df =
     (case candidates (contains ''description'') df of
        [] \<Rightarrow> False
      | (n, c) # rest \<Rightarrow> dtype c \<noteq> Utf8)"

definition date_raises :: "frame \<Rightarrow> bool" where
  "date_raises df =
     (case date_candidates df of
        [] \<Rightarrow> False
      | (n, c) # rest \<Rightarrow> dtype c \<noteq> Utf8 \<and> dtype c \<noteq> Datetime)"

definition is_failure :: "response \<Rightarrow> bool" where
  "is_failure r = (case r of Failure e \<Rightarrow> True | Success p \<Rightarrow> False)"

text \<open>The values a sum of absolute values can take.\<close>

definition nonneg :: "f64 \<Rightarrow> bool" where
  "nonneg x = (case x of Fin r \<Rightarrow> 0 \<le> r | PInf \<Rightarrow> True | NInf \<Rightarrow> False | NaN \<Rightarrow> True)"

text \<open>A sum of amounts against the sum of their absolute values, both taken over the
  same rows: while the second is finite the first is finite and no larger in magnitude,
  and once the second has overflowed the first is a number or an infinity.\<close>

definition dominated :: "f64 \<Rightarrow> f64 \<Rightarrow> bool" where
  "dominated x X =
     (case X of
        Fin S \<Rightarrow> (case x of Fin s \<Rightarrow> \<bar>s\<bar> \<le> S | _ \<Rightarrow> False)
      | PInf \<Rightarrow> x \<noteq> NaN
      | _ \<Rightarrow> False)"

text \<open>The type of a column of a frame, if the frame has the column.\<close>

definition dtype_of :: "frame \<Rightarrow> string \<Rightarrow> dtype option" where
  "dtype_of df n = map_option dtype (map_of df n)"

section \<open>Example tables\<close>

text \<open>A debit cell with two thousands separators.\<close>

definition comma_table :: frame where
  "comma_table =
     [(''Debit'', \<lparr>dtype = Utf8, cells = [VStr ''1,234,567'']\<rparr>),
      (''Credit'', \<lparr>dtype = Utf8, cells = [VStr ''0'']\<rparr>)]"

text \<open>A date column of compact numeric dates, which the CSV reader types as Int64.\<close>

definition int_date_table :: frame where
  "int_date_table =
     [(''Amount'', \<lparr>dtype = Float64, cells = [VFloat (Fin 250)]\<rparr>),
      (''Date'', \<lparr>dtype = Int64, cells = [VInt 20240106]\<rparr>)]"

definition int_date_selected :: frame where
  "int_date_selected =
     [(''amount'', \<lparr>dtype = Float64, cells = [VFloat (Fin 250)]\<rparr>),
      (''posting_date'', \<lparr>dtype = Int64, cells = [VInt 20240106]\<rparr>)]"

text \<open>Three entries without a date: a near-zero amount, a round large amount and a
  suspicious description; the cleaned frame, the seven flags and the results frame
  the model computes for them.\<close>

definition ledger3 :: frame where
  "ledger3 =
     [(''Amount'', \<lparr>dtype = Float64,
         cells = [VFloat (Fin (1 / 2)), VFloat (Fin 5000), VFloat (Fin (1003 / 4))]\<rparr>),
      (''Description'', \<lparr>dtype = Utf8, cells = [VStr ''rent'', VStr ''lunch'', VStr ''Misc'']\<rparr>)]"

definition ledger3_cleaned :: frame where
  "ledger3_cleaned =
     [(''amount'', \<lparr>dtype = Float64,
         cells = [VFloat (Fin (1 / 2)), VFloat (Fin 5000), VFloat (Fin (1003 / 4))]\<rparr>),
      (''description'', \<lparr>dtype = Utf8, cells = [VStr ''rent'', VStr ''lunch'', VStr ''Misc'']\<rparr>)]"

definition ledger3_flags :: frame where
  "ledger3_flags =
     [(''Round Large Amount'', \<lparr>dtype = Boolean, cells = [VBool False, VBool True, VBool False]\<rparr>),
      (''Near-Zero Amount'', \<lparr>dtype = Boolean, cells = [VBool True, VBool False, VBool False]\<rparr>),
      (''Suspicious Description'', \<lparr>dtype = Boolean, cells = [VBool False, VBool False, VBool True]\<rparr>),
      (''Weekend Entry'', \<lparr>dtype = Boolean, cells = [VBool False, VBool False, VBool False]\<rparr>),
      (''Duplicate Entry'', \<lparr>dtype = Boolean, cells = [VBool False, VBool False, VBool False]\<rparr>),
      (''High-Value Entry'', \<lparr>dtype = Boolean, cells = [VBool False, VBool False, VBool False]\<rparr>),
      (''Repeating Entry'', \<lparr>dtype = Boolean, cells = [VBool False, VBool False, VBool False]\<rparr>)]"

definition ledger3_results :: frame where
  "ledger3_results =
     ledger3_cleaned @ ledger3_flags
     @ [(''Has Anomaly'', \<lparr>dtype = Boolean, cells = [VBool False, VBool False, VBool False]\<rparr>)]"

text \<open>A table with a debit/credit pair, an amount column and a date column, and a table
  with an amount column and a date column, each with the frame selected from it (after
  date parsing) and the cleaned frame.\<close>

definition mixed_table :: frame where
  "mixed_table =
     [(''Debit'', \<lparr>dtype = Int64, cells = [VInt 100, Null, VInt 7]\<rparr>),
      (''Credit'', \<lparr>dtype = Utf8, cells = [VStr ''30'', VStr ''n/a'', Null]\<rparr>),
      (''Amount'', \<lparr>dtype = Utf8, cells = [VStr ''999'', VStr ''999'', VStr ''999'']\<rparr>),
      (''Posting Date'', \<lparr>dtype = Utf8,
         cells = [VStr ''2024-01-06'', VStr ''not a date'', VStr ''2024-01-08'']\<rparr>)]"

definition mixed_selected :: frame where
  "mixed_selected =
     [(''amount'', \<lparr>dtype = Float64,
         cells = [VFloat (Fin 70), VFloat (Fin 0), VFloat (Fin 7)]\<rparr>),
      (''posting_date'', \<lparr>dtype = Datetime,
         cells = [VTime 1704499200000000, Null, VTime 1704672000000000]\<rparr>)]"

definition mixed_cleaned :: frame where
  "mixed_cleaned =
     [(''amount'', \<lparr>dtype = Float64, cells = [VFloat (Fin 70), VFloat (Fin 7)]\<rparr>),
      (''posting_date'', \<lparr>dtype = Datetime,
         cells = [VTime 1704499200000000, VTime 1704672000000000]\<rparr>)]"

definition amount_table :: frame where
  "amount_table =
     [(''Amount'', \<lparr>dtype = Utf8, cells = [VStr ''12.5'', VStr ''abc'', VStr ''3'']\<rparr>),
      (''Date'', \<lparr>dtype = Utf8,
         cells = [VStr ''2024-01-06'', VStr ''2024-01-07'', VStr ''bad'']\<rparr>)]"

definition amount_selected :: frame where
  "amount_selected =
     [(''amount'', \<lparr>dtype = Float64, cells = [VFloat (Fin (25 / 2)), Null, VFloat (Fin 3)]\<rparr>),
      (''posting_date'', \<lparr>dtype = Datetime,
         cells = [VTime 1704499200000000, VTime 1704585600000000, Null]\<rparr>)]"

definition amount_cleaned :: frame where
  "amount_cleaned =
     [(''amount'', \<lparr>dtype = Float64, cells = [VFloat (Fin (25 / 2))]\<rparr>),
      (''posting_date'', \<lparr>dtype = Datetime, cells = [VTime 1704499200000000]\<rparr>)]"

text \<open>A cleaned frame of eleven amounts with one outlier, a table with a header and no
  rows, and a table without an amount-bearing column.\<close>

definition eleven_cleaned :: frame where
  "eleven_cleaned =
     [(''amount'', \<lparr>dtype = Float64,
         cells = map VFloat [Fin 1, Fin 2, Fin 3, Fin 4, Fin 5, Fin 6, Fin 7, Fin 8, Fin 9,
                             Fin 10, Fin (- 1000)]\<rparr>)]"

definition header_only :: frame where
  "header_only = [(''Amount'', \<lparr>dtype = Float64, cells = []\<rparr>)]"

definition no_amount_table :: frame where
  "no_amount_table = [(''Memo'', \<lparr>dtype = Utf8, cells = [VStr ''paid'']\<rparr>)]"

section \<open>Rounding to a double\<close>

subsection \<open>Rounding to an integer\<close>

lemma round_half_even_of_int [simp]: "round_half_even (of_int n) = n"
  by (simp add: round_half_even_def)

lemma round_half_even_0 [simp]: "round_half_even 0 = 0"
  using round_half_even_of_int [of 0] by simp

lemma round_half_even_numeral [simp]: "round_half_even (numeral w) = numeral w"
  using round_half_even_of_int [of "numeral w"] by simp

lemma round_half_even_bounds: "\<lfloor>x\<rfloor> \<le> round_half_even x \<and> round_half_even x \<le> \<lfloor>x\<rfloor> + 1"
  by (simp add: round_half_even_def Let_def)

lemma round_half_even_mono:
  assumes "x \<le> y"
  shows "round_half_even x \<le> round_half_even y"
proof (cases "\<lfloor>x\<rfloor> = \<lfloor>y\<rfloor>")
  case True
  with assms have "x - of_int \<lfloor>x\<rfloor> \<le> y - of_int \<lfloor>y\<rfloor>" by simp
  with True show ?thesis
    by (auto simp: round_half_even_def Let_def)
next
  case False
  with assms have "\<lfloor>x\<rfloor> < \<lfloor>y\<rfloor>"
    using floor_mono [OF assms] by linarith
  with round_half_even_bounds [of x] round_half_even_bounds [of y] show ?thesis
    by linarith
qed

lemma round_half_even_le: "x \<le> of_int n \<Longrightarrow> round_half_even x \<le> n"
  using round_half_even_mono [of x "of_int n"] by simp

lemma round_half_even_ge: "of_int n \<le> x \<Longrightarrow> n \<le> round_half_even x"
  using round_half_even_mono [of "of_int n" x] by simp

lemma round_half_even_near:
  "of_int n - 1 / 2 < x \<Longrightarrow> x \<le> of_int n \<Longrightarrow> round_half_even x = n"
proof -
  assume a: "of_int n - 1 / 2 < x" "x \<le> of_int n"
  show ?thesis
  proof (cases "x = of_int n")
    case True
    then show ?thesis by simp
  next
    case False
    with a have "x < of_int n" by simp
    moreover from a have "of_int (n - 1) \<le> x" by simp
    ultimately have "\<lfloor>x\<rfloor> = n - 1"
      by (simp add: floor_eq_iff)
    with a show ?thesis
      by (auto simp: round_half_even_def Let_def)
  qed
qed


subsection \<open>Rounding a magnitude to 53 significant bits\<close>

lemma round_half_even_nonneg: "0 \<le> x \<Longrightarrow> 0 \<le> round_half_even x"
  using round_half_even_ge [of 0 x] by simp

lemma bitlen_mono: "x \<le> y \<Longrightarrow> bitlen x \<le> bitlen y"
  by (simp add: bitlen_def floorlog_mono nat_mono)

lemma f64_shift_mono: "s \<le> t \<Longrightarrow> f64_shift s \<le> f64_shift t"
  unfolding f64_shift_def
  by (intro nat_mono diff_right_mono bitlen_mono floor_mono)

lemma below_next_binade: "s < 2 ^ (f64_shift s + 53)"
proof -
  have "bitlen \<lfloor>s\<rfloor> \<le> int (f64_shift s + 53)"
    by (simp add: f64_shift_def)
  then have "\<lfloor>s\<rfloor> < 2 ^ (f64_shift s + 53)"
    by (simp add: bitlen_le_iff_power nat_add_distrib)
  then have "\<lfloor>s\<rfloor> < \<lfloor>(2::real) ^ (f64_shift s + 53)\<rfloor>"
    by simp
  then show ?thesis
    by (rule floor_less_cancel)
qed

lemma above_binade:
  assumes "0 < f64_shift s"
  shows "2 ^ (f64_shift s + 52) \<le> s"
proof -
  from assms have "int (f64_shift s + 53) \<le> bitlen \<lfloor>s\<rfloor>"
    by (simp add: f64_shift_def)
  then have "2 ^ (f64_shift s + 52) \<le> \<lfloor>s\<rfloor>"
    by (simp add: bitlen_ge_iff_power nat_add_distrib add.commute)
  then have "of_int (2 ^ (f64_shift s + 52)) \<le> (of_int \<lfloor>s\<rfloor> :: real)"
    by (simp only: of_int_le_iff)
  also have "\<dots> \<le> s" by simp
  finally show ?thesis by simp
qed

lemma round_scaled_upper: "0 \<le> s \<Longrightarrow> round_scaled s \<le> 2 ^ (f64_shift s + 53)"
proof -
  assume "0 \<le> s"
  have "s / 2 ^ f64_shift s \<le> 2 ^ 53"
    using below_next_binade [of s] by (simp add: divide_le_eq power_add mult.commute)
  then have "s / 2 ^ f64_shift s \<le> of_int (2 ^ 53)" by simp
  then have "round_half_even (s / 2 ^ f64_shift s) \<le> 2 ^ 53"
    by (rule round_half_even_le)
  then have "(of_int (round_half_even (s / 2 ^ f64_shift s)) :: real) \<le> of_int (2 ^ 53)"
    by (simp only: of_int_le_iff)
  then have "(of_int (round_half_even (s / 2 ^ f64_shift s)) :: real) * 2 ^ f64_shift s
               \<le> 2 ^ 53 * 2 ^ f64_shift s"
    by (intro mult_right_mono) simp_all
  then show ?thesis
    by (simp add: round_scaled_def power_add mult.commute)
qed

lemma round_scaled_lower:
  assumes "0 < f64_shift s"
  shows "2 ^ (f64_shift s + 52) \<le> round_scaled s"
proof -
  have "2 ^ 52 \<le> s / 2 ^ f64_shift s"
    using above_binade [OF assms] by (simp add: le_divide_eq power_add mult.commute)
  then have "of_int (2 ^ 52) \<le> s / 2 ^ f64_shift s" by simp
  then have "2 ^ 52 \<le> round_half_even (s / 2 ^ f64_shift s)"
    by (rule round_half_even_ge)
  then have "(of_int (2 ^ 52) :: real) \<le> of_int (round_half_even (s / 2 ^ f64_shift s))"
    by (simp only: of_int_le_iff)
  then have "(2 ^ 52 :: real) * 2 ^ f64_shift s
               \<le> of_int (round_half_even (s / 2 ^ f64_shift s)) * 2 ^ f64_shift s"
    by (intro mult_right_mono) simp_all
  then show ?thesis
    by (simp add: round_scaled_def power_add mult.commute)
qed

lemma round_scaled_nonneg: "0 \<le> s \<Longrightarrow> 0 \<le> round_scaled s"
  by (simp add: round_scaled_def round_half_even_nonneg)

lemma round_scaled_mono:
  assumes "0 \<le> s" "s \<le> t"
  shows "round_scaled s \<le> round_scaled t"
proof (cases "f64_shift s = f64_shift t")
  case True
  have "s / 2 ^ f64_shift t \<le> t / 2 ^ f64_shift t"
    using assms by (simp add: divide_right_mono)
  then have "round_half_even (s / 2 ^ f64_shift t) \<le> round_half_even (t / 2 ^ f64_shift t)"
    by (rule round_half_even_mono)
  then have "(of_int (round_half_even (s / 2 ^ f64_shift t)) :: real)
               \<le> of_int (round_half_even (t / 2 ^ f64_shift t))"
    by (simp only: of_int_le_iff)
  then show ?thesis
    by (simp add: round_scaled_def True)
next
  case False
  with f64_shift_mono [OF assms(2)] have lt: "f64_shift s < f64_shift t" by simp
  then have pos: "0 < f64_shift t" by simp
  have "round_scaled s \<le> 2 ^ (f64_shift s + 53)"
    using assms(1) by (rule round_scaled_upper)
  also have "\<dots> \<le> (2::real) ^ (f64_shift t + 52)"
    using lt by (intro power_increasing) simp_all
  also have "\<dots> \<le> round_scaled t"
    using pos by (rule round_scaled_lower)
  finally show ?thesis .
qed

text \<open>Every scaled value of at most 53 significant bits is kept.\<close>

lemma round_scaled_exact:
  assumes "m \<le> 2 ^ 53"
  shows "round_scaled (of_nat (m * 2 ^ j)) = of_nat (m * 2 ^ j)"
proof (cases "m = 0")
  case True
  then show ?thesis
    by (simp add: round_scaled_def f64_shift_def)
next
  case False
  define sh where "sh = f64_shift (of_nat (m * 2 ^ j))"
  have "(of_nat (m * 2 ^ j) :: real) = of_int (int m * 2 ^ j)"
    by simp
  then have fl: "\<lfloor>(of_nat (m * 2 ^ j) :: real)\<rfloor> = int m * 2 ^ j"
    by (simp only: floor_of_int)
  have bl: "bitlen (int m * 2 ^ j) = bitlen (int m) + int j"
    using False by simp
  have "bitlen (int m) \<le> 54"
    using assms by (simp add: bitlen_le_iff_power)
  have dvd: "2 ^ sh dvd m * 2 ^ j"
  proof (cases "sh \<le> j")
    case True
    then have "(2::nat) ^ sh dvd 2 ^ j" by (rule le_imp_power_dvd)
    then show ?thesis by (rule dvd_mult)
  next
    case gt: False
    then have "int j + 54 \<le> bitlen (int m) + int j"
      unfolding sh_def f64_shift_def fl bl by linarith
    then have "54 \<le> bitlen (int m)" by simp
    then have "2 ^ 53 \<le> int m"
      by (simp add: bitlen_ge_iff_power)
    with assms have m: "m = 2 ^ 53" by simp
    from \<open>bitlen (int m) \<le> 54\<close> have "sh \<le> j + 1"
      unfolding sh_def f64_shift_def fl bl by linarith
    then have "(2::nat) ^ sh dvd 2 ^ (j + 1)" by (rule le_imp_power_dvd)
    moreover have "(2::nat) ^ (j + 1) dvd 2 ^ 53 * 2 ^ j"
      by (simp add: power_add [symmetric] le_imp_power_dvd)
    ultimately show ?thesis
      unfolding m by (rule dvd_trans)
  qed
  then obtain k where k: "m * 2 ^ j = 2 ^ sh * k" ..
  have "(of_nat (m * 2 ^ j) :: real) / 2 ^ sh = of_int (int k)"
    by (simp add: k)
  then have "round_half_even (of_nat (m * 2 ^ j) / 2 ^ sh) = int k"
    by (simp only: round_half_even_of_int)
  then show ?thesis
    unfolding round_scaled_def sh_def [symmetric] by (simp add: k)
qed

lemma round_scaled_idem:
  assumes "0 \<le> s"
  shows "round_scaled (round_scaled s) = round_scaled s"
proof -
  define m where "m = nat (round_half_even (s / 2 ^ f64_shift s))"
  have nonneg: "0 \<le> round_half_even (s / 2 ^ f64_shift s)"
    using assms by (intro round_half_even_nonneg) simp
  have "s / 2 ^ f64_shift s \<le> of_int (2 ^ 53)"
    using below_next_binade [of s] by (simp add: divide_le_eq power_add mult.commute)
  then have "round_half_even (s / 2 ^ f64_shift s) \<le> 2 ^ 53"
    by (rule round_half_even_le)
  then have m: "m \<le> 2 ^ 53"
    by (simp add: m_def nat_le_iff)
  have "round_scaled s = of_nat (m * 2 ^ f64_shift s)"
    using nonneg by (simp add: round_scaled_def m_def)
  with round_scaled_exact [OF m, of "f64_shift s"] show ?thesis
    by simp
qed

subsection \<open>Rounding a real to a double\<close>

lemma f64_round_0 [simp]: "f64_round 0 = 0"
  by (simp add: f64_round_def)

lemma f64_round_minus: "f64_round (- x) = - f64_round x"
  by (simp add: f64_round_def sgn_minus)

lemma f64_round_nonneg_eq:
  "0 \<le> x \<Longrightarrow> f64_round x = round_scaled (x * 2 ^ 1074) / 2 ^ 1074"
  by (cases "x = 0") (simp_all add: f64_round_def round_scaled_def f64_shift_def)

lemma f64_round_nonneg: "0 \<le> x \<Longrightarrow> 0 \<le> f64_round x"
  by (simp add: f64_round_nonneg_eq round_scaled_nonneg)

lemma f64_round_mono_nonneg:
  assumes "0 \<le> x" "x \<le> y"
  shows "f64_round x \<le> f64_round y"
proof -
  have "round_scaled (x * 2 ^ 1074) \<le> round_scaled (y * 2 ^ 1074)"
    using assms by (intro round_scaled_mono) simp_all
  then show ?thesis
    using assms by (simp add: f64_round_nonneg_eq divide_right_mono)
qed

lemma f64_round_mono:
  assumes "x \<le> y"
  shows "f64_round x \<le> f64_round y"
proof (cases "0 \<le> x")
  case True
  from True assms show ?thesis by (rule f64_round_mono_nonneg)
next
  case neg: False
  show ?thesis
  proof (cases "0 \<le> y")
    case True
    have "f64_round x = - f64_round (- x)"
      by (simp add: f64_round_minus)
    also have "\<dots> \<le> 0"
      using neg by (simp add: f64_round_nonneg)
    also have "\<dots> \<le> f64_round y"
      using True by (rule f64_round_nonneg)
    finally show ?thesis .
  next
    case False
    then have "f64_round (- y) \<le> f64_round (- x)"
      using assms by (intro f64_round_mono_nonneg) simp_all
    then show ?thesis
      by (simp add: f64_round_minus)
  qed
qed

lemma f64_round_abs: "f64_round \<bar>x\<bar> = \<bar>f64_round x\<bar>"
proof (cases "0 \<le> x")
  case True
  then show ?thesis by (simp add: f64_round_nonneg)
next
  case False
  then have "0 \<le> f64_round (- x)" by (intro f64_round_nonneg) simp
  with False show ?thesis
    by (simp add: f64_round_minus abs_if)
qed

lemma f64_round_idem: "f64_round (f64_round x) = f64_round x"
proof -
  have nn: "f64_round (f64_round x) = f64_round x" if "0 \<le> x" for x
  proof -
    have "f64_round x * 2 ^ 1074 = round_scaled (x * 2 ^ 1074)"
      using that by (simp add: f64_round_nonneg_eq)
    moreover have "round_scaled (round_scaled (x * 2 ^ 1074)) = round_scaled (x * 2 ^ 1074)"
      using that by (intro round_scaled_idem) simp
    ultimately show ?thesis
      using that f64_round_nonneg [OF that] by (simp add: f64_round_nonneg_eq)
  qed
  show ?thesis
  proof (cases "0 \<le> x")
    case True
    then show ?thesis by (rule nn)
  next
    case False
    then have "f64_round (f64_round (- x)) = f64_round (- x)" by (intro nn) simp
    then show ?thesis by (simp add: f64_round_minus)
  qed
qed

text \<open>A value \<open>n * 2 ^ j / 2 ^ 1074\<close> with \<open>|n| \<le> 2 ^ 53\<close> is kept: the integers up to
  \<open>2 ^ 53\<close>, and the dyadic fractions of the examples.\<close>

lemma f64_round_exact:
  assumes "\<bar>n\<bar> \<le> 2 ^ 53"
  shows "f64_round (of_int n * 2 ^ j / 2 ^ 1074) = of_int n * 2 ^ j / 2 ^ 1074"
proof -
  have nn: "f64_round (of_nat m * 2 ^ j / 2 ^ 1074) = of_nat m * 2 ^ j / 2 ^ 1074"
    if "m \<le> 2 ^ 53" for m :: nat
  proof -
    have "round_scaled (of_nat (m * 2 ^ j)) = of_nat (m * 2 ^ j)"
      using that by (rule round_scaled_exact)
    then show ?thesis
      by (simp add: f64_round_nonneg_eq)
  qed
  show ?thesis
  proof (cases "0 \<le> n")
    case True
    with assms have "nat n \<le> 2 ^ 53" by (simp add: nat_le_iff)
    from nn [OF this] True show ?thesis by simp
  next
    case False
    with assms have "nat (- n) \<le> 2 ^ 53" by (simp add: nat_le_iff)
    from nn [OF this] False have "f64_round (- (of_int n * 2 ^ j / 2 ^ 1074))
        = - (of_int n * 2 ^ j / 2 ^ 1074)"
      by simp
    then show ?thesis
      by (simp only: f64_round_minus neg_equal_iff_equal)
  qed
qed

lemma f64_round_int: "\<bar>n\<bar> \<le> 2 ^ 53 \<Longrightarrow> f64_round (of_int n) = of_int n"
  using f64_round_exact [of n 1074] by simp

lemma f64_round_dyadic:
  "\<bar>n\<bar> \<le> 2 ^ 53 \<Longrightarrow> k \<le> 1074 \<Longrightarrow> f64_round (of_int n / 2 ^ k) = of_int n / 2 ^ k"
proof -
  assume n: "\<bar>n\<bar> \<le> 2 ^ 53" and k: "k \<le> 1074"
  have eq: "(2::real) ^ 1074 = 2 ^ (1074 - k) * 2 ^ k"
    using k by (simp add: power_add [symmetric])
  have h: "of_int n * 2 ^ (1074 - k) / (2::real) ^ 1074 = of_int n / 2 ^ k"
    by (subst eq) simp
  show ?thesis
    using f64_round_exact [OF n, of "1074 - k"] unfolding h .
qed

lemma f64_round_power: "f64_round (2 ^ k) = 2 ^ k"
proof -
  have "of_int 1 * 2 ^ (k + 1074) / (2::real) ^ 1074 = 2 ^ k"
    by (simp add: power_add)
  with f64_round_exact [of 1 "k + 1074"] show ?thesis by simp
qed

lemma f64_round_1 [simp]: "f64_round 1 = 1"
  using f64_round_int [of 1] by simp

lemma f64_round_numeral:
  "(numeral w :: int) \<le> 2 ^ 53 \<Longrightarrow> f64_round (numeral w) = numeral w"
  using f64_round_int [of "numeral w"] by simp

subsection \<open>The result of a float operation\<close>

lemma f64_max_pos: "0 < f64_max"
  by (simp add: f64_max_def)

lemma f64_max_ge: "2 ^ 53 \<le> f64_max"
proof -
  have "(2::real) ^ 53 = 2 ^ 52 * 2 ^ 1" by simp
  also have "\<dots> \<le> (2 ^ 53 - 1) * 2 ^ 971"
    by (intro mult_mono) simp_all
  finally show ?thesis by (simp only: f64_max_def)
qed

lemma f64_max_ge_100: "100 \<le> f64_max"
  using f64_max_ge by simp

lemma f64_round_max: "f64_round f64_max = f64_max"
proof -
  have "f64_max = of_int (2 ^ 53 - 1) * 2 ^ (971 + 1074) / 2 ^ 1074"
    unfolding f64_max_def power_add by simp
  moreover have "f64_round (of_int (2 ^ 53 - 1) * 2 ^ (971 + 1074) / 2 ^ 1074)
      = of_int (2 ^ 53 - 1) * 2 ^ (971 + 1074) / 2 ^ 1074"
    by (rule f64_round_exact) simp
  ultimately show ?thesis by simp
qed

lemma f64_of_real_cases:
  "f64_of_real r = PInf \<and> f64_max < f64_round r
   \<or> f64_of_real r = NInf \<and> f64_round r < - f64_max
   \<or> f64_of_real r = Fin (f64_round r) \<and> \<bar>f64_round r\<bar> \<le> f64_max"
  using f64_max_pos by (auto simp: f64_of_real_def Let_def)

lemma f64_of_real_not_NaN [simp]: "f64_of_real r \<noteq> NaN"
  by (simp add: f64_of_real_def Let_def)

lemma f64_of_real_Fin: "f64_of_real r = Fin y \<Longrightarrow> y = f64_round r \<and> \<bar>y\<bar> \<le> f64_max"
  using f64_of_real_cases [of r] by auto

lemma f64_of_real_representable: "f64_of_real r = Fin y \<Longrightarrow> f64_round y = y"
  using f64_of_real_Fin [of r y] by (simp add: f64_round_idem)

lemma f64_of_real_bounded: "\<bar>f64_round r\<bar> \<le> f64_max \<Longrightarrow> f64_of_real r = Fin (f64_round r)"
  by (auto simp: f64_of_real_def Let_def)

lemma f64_of_real_exact: "f64_round x = x \<Longrightarrow> \<bar>x\<bar> \<le> f64_max \<Longrightarrow> f64_of_real x = Fin x"
  using f64_of_real_bounded [of x] by simp

text \<open>A result between two doubles is a double between them.\<close>

lemma f64_of_real_between:
  assumes "f64_round a = a" "f64_round b = b" "- f64_max \<le> a" "b \<le> f64_max"
    and "a \<le> r" "r \<le> b"
  shows "\<exists>y. f64_of_real r = Fin y \<and> a \<le> y \<and> y \<le> b"
proof -
  have "f64_round a \<le> f64_round r" "f64_round r \<le> f64_round b"
    using assms(5,6) by (simp_all add: f64_round_mono)
  with assms(1,2) have b: "a \<le> f64_round r" "f64_round r \<le> b" by simp_all
  with assms(3,4) have "\<bar>f64_round r\<bar> \<le> f64_max" by simp
  then have "f64_of_real r = Fin (f64_round r)" by (rule f64_of_real_bounded)
  with b show ?thesis by simp
qed

lemma f64_of_real_nonneg:
  assumes "0 \<le> r"
  shows "f64_of_real r = PInf \<or> (\<exists>y. f64_of_real r = Fin y \<and> 0 \<le> y \<and> y = f64_round r)"
  using f64_of_real_cases [of r] f64_round_nonneg [OF assms] f64_max_pos by auto

text \<open>The values of the examples are doubles.\<close>

lemma f64_of_real_of_int: "\<bar>n\<bar> \<le> 2 ^ 53 \<Longrightarrow> f64_of_real (of_int n) = Fin (of_int n)"
proof (rule f64_of_real_exact)
  assume n: "\<bar>n\<bar> \<le> 2 ^ 53"
  then show "f64_round (of_int n) = of_int n" by (rule f64_round_int)
  from n have "\<bar>of_int n :: real\<bar> \<le> of_int (2 ^ 53)"
    by (simp only: of_int_abs [symmetric] of_int_le_iff)
  with f64_max_ge show "\<bar>of_int n :: real\<bar> \<le> f64_max" by simp
qed

lemma f64_of_real_0 [simp]: "f64_of_real 0 = Fin 0"
  using f64_of_real_of_int [of 0] by simp

lemma f64_of_real_1 [simp]: "f64_of_real 1 = Fin 1"
  using f64_of_real_of_int [of 1] by simp

lemma f64_of_real_numeral:
  "(numeral w :: int) \<le> 2 ^ 53 \<Longrightarrow> f64_of_real (numeral w) = Fin (numeral w)"
  using f64_of_real_of_int [of "numeral w"] by simp

lemma f64_of_real_neg_numeral:
  "(numeral w :: int) \<le> 2 ^ 53 \<Longrightarrow> f64_of_real (- numeral w) = Fin (- numeral w)"
  using f64_of_real_of_int [of "- numeral w"] by simp

lemma f64_of_real_dyadic:
  assumes "\<bar>n\<bar> \<le> 2 ^ 53" "k \<le> 1074"
  shows "f64_of_real (of_int n / 2 ^ k) = Fin (of_int n / 2 ^ k)"
proof (rule f64_of_real_exact)
  show "f64_round (of_int n / 2 ^ k) = of_int n / 2 ^ k"
    using assms by (rule f64_round_dyadic)
  from assms(1) have "\<bar>of_int n :: real\<bar> \<le> of_int (2 ^ 53)"
    by (simp only: of_int_abs [symmetric] of_int_le_iff)
  with f64_max_ge have "\<bar>of_int n :: real\<bar> \<le> f64_max" by simp
  moreover have "\<bar>of_int n / 2 ^ k :: real\<bar> \<le> \<bar>of_int n\<bar>"
    by (simp add: divide_le_eq mult_le_cancel_left1)
  ultimately show "\<bar>of_int n / 2 ^ k :: real\<bar> \<le> f64_max" by simp
qed

lemma f64_of_real_examples:
  "f64_of_real (1 / 2) = Fin (1 / 2)"
  "f64_of_real (25 / 2) = Fin (25 / 2)"
  "f64_of_real (10001 / 2) = Fin (10001 / 2)"
  "f64_of_real (21005 / 4) = Fin (21005 / 4)"
  using f64_of_real_dyadic [of 1 1] f64_of_real_dyadic [of 25 1]
    f64_of_real_dyadic [of 10001 1] f64_of_real_dyadic [of 21005 2]
  by simp_all

lemmas f64_exact = f64_of_real_numeral f64_of_real_neg_numeral f64_of_real_examples

text \<open>The literal \<open>1e-6\<close>.\<close>

lemma millionth:
  "\<exists>e. f64_of_real (1 / 1000000) = Fin e \<and> 1 / 2 ^ 20 \<le> e \<and> e \<le> 1 / 2 ^ 19"
proof (rule f64_of_real_between)
  show "f64_round (1 / 2 ^ 20) = 1 / 2 ^ 20"
    using f64_round_dyadic [of 1 20] by simp
  show "f64_round (1 / 2 ^ 19) = 1 / 2 ^ 19"
    using f64_round_dyadic [of 1 19] by simp
  show "- f64_max \<le> 1 / 2 ^ 20"
    using f64_max_pos by simp
  show "1 / 2 ^ 19 \<le> f64_max"
    using f64_max_ge_100 by simp
qed simp_all

section \<open>Unfolding the model on concrete tables\<close>

lemmas frame_defs =
  columns_def height_def get_column_def is_not_null_def filter_by_def filter_rows_def

lemmas string_defs = lower_def lower_char_def

lemmas step1_defs =
  candidates_def debit_candidates_def credit_candidates_def amount_candidates_def
  cast_utf8_def cast_f64_def fill_null_def dr_cr_cell_def dr_cr_series_def amount_series_def

lemmas step2_defs =
  date_candidates_def key_fields_def key_field_def amount_column_def selected_def

lemmas date_defs =
  date_formats_def strptime_cell_def with_strptime_def drop_column_def smart_date_parsing_def

lemmas flag_defs =
  bool_column_def lit_False_def f64_of_cell_def amounts_def round_large_amount_def
  near_zero_amount_def suspicious_words_def suspicious_description_def weekday_def
  weekend_entry_def is_duplicated_def duplicate_entry_def high_value_entry_def
  repeating_entry_def anomaly_exprs_def with_columns_def f64_lt_def f64_gt_def f64_ge_def

lemmas result_defs =
  anomaly_cols_def or_cell_def any_horizontal_def filter_col_def build_results_def

section \<open>The debit and credit cells\<close>

lemma parse_decimal_comma: "parse_decimal ''1234,567'' = None"
  by (simp add: parse_decimal_def digit_val_def)

lemma parse_decimal_zero: "parse_decimal ''0'' = Some (Fin 0)"
  by (simp add: parse_decimal_def digit_val_def f64_exact)

lemma dr_cr_cell_two_commas: "dr_cr_cell ref_polars (VStr ''1,234,567'') = Fin 0"
  by (simp add: dr_cr_cell_def cast_utf8_def fill_null_def ref_polars_def parse_decimal_comma)

lemma dr_cr_cell_zero: "dr_cr_cell ref_polars (VStr ''0'') = Fin 0"
  by (simp add: dr_cr_cell_def cast_utf8_def fill_null_def ref_polars_def parse_decimal_zero)

lemma dr_cr_cell_one_comma: "dr_cr_cell ref_polars (VStr ''1,234'') = Fin 1234"
  by (simp add: dr_cr_cell_def cast_utf8_def fill_null_def ref_polars_def parse_decimal_def
      digit_val_def f64_exact)

text \<open>
  C3 (the code departs from the claim). The claim: every thousands separator is
  stripped, so a debit cell \<open>"1,234,567"\<close> contributes 1234567. The code calls
  \<open>str.replace\<close>, which removes the first comma only: the cell becomes
  \<open>"1234,567"\<close>, which is not a number, and the cell contributes 0.0. With a credit
  of \<open>"0"\<close> the reconciled amount of the row is 0.0, not 1234567.
\<close>

theorem dr_cr_strips_first_comma_only:
  "str_replace_comma ''1,234,567'' = ''1234,567''
   \<and> dr_cr_cell ref_polars (VStr ''1,234,567'') = Fin 0
   \<and> amount_series ref_polars comma_table = Inr [Some (Fin 0)]"
  by (simp add: comma_table_def amount_series_def debit_candidates_def credit_candidates_def
      candidates_def string_defs dr_cr_series_def dr_cr_cell_two_commas dr_cr_cell_zero
      f64_sub_def f64_exact)

section \<open>The date column that no format parses\<close>

lemma int_date_amount_series: "amount_series pl int_date_table = Inr [Some (Fin 250)]"
  by (simp add: int_date_table_def step1_defs string_defs)

lemma int_date_selected: "selected int_date_table [Some (Fin 250)] = int_date_selected"
  by (simp add: int_date_table_def int_date_selected_def step2_defs candidates_def string_defs)

lemma int_date_parsing: "smart_date_parsing pl int_date_selected = int_date_selected"
  by (simp add: int_date_selected_def date_defs frame_defs)

lemma int_date_clean: "clean int_date_selected = Inr int_date_selected"
  by (simp add: int_date_selected_def clean_def frame_defs)

lemma int_date_build_results:
  "build_results pl int_date_selected =
     Inl (SchemaError ''invalid series dtype: expected a temporal type'')"
  by (simp add: int_date_selected_def build_results_def with_columns_def anomaly_exprs_def
      round_large_amount_def near_zero_amount_def suspicious_description_def weekend_entry_def
      amounts_def frame_defs)

text \<open>
  C5 (the code departs from the claim). The claim: when no format succeeds for the
  column, the posting_date role is dropped and the request does not fail. In the code
  \<open>parsed\<close> is assigned before \<open>with_columns\<close> raises, so after the loop it is never
  \<open>None\<close> and the drop is never taken. For a date column of type Int64 every format
  raises, \<open>posting_date\<close> stays in the frame as it was, and the request then fails
  in the Weekend Entry expression.
\<close>

theorem unparsed_date_is_kept_and_request_fails:
  "strptime_loop pl date_formats (None, int_date_selected) = (Some ''%m-%d-%Y'', int_date_selected)
   \<and> smart_date_parsing pl (selected int_date_table [Some (Fin 250)]) = int_date_selected
   \<and> ''posting_date'' \<in> set (columns int_date_selected)
   \<and> analyze_je pl int_date_table =
       Failure (SchemaError ''invalid series dtype: expected a temporal type'')"
proof -
  have loop: "strptime_loop pl date_formats (None, int_date_selected)
                = (Some ''%m-%d-%Y'', int_date_selected)"
    by (simp add: int_date_selected_def date_defs frame_defs)
  have kept: "''posting_date'' \<in> set (columns int_date_selected)"
    by (simp add: int_date_selected_def columns_def)
  have nonempty: "height int_date_table \<noteq> 0"
    by (simp add: int_date_table_def height_def)
  have "analyze_je pl int_date_table =
          Failure (SchemaError ''invalid series dtype: expected a temporal type'')"
    using nonempty
    by (simp add: analyze_je_def analyze_body_def int_date_amount_series int_date_selected
        int_date_parsing int_date_clean int_date_build_results)
  with loop kept show ?thesis
    by (simp add: int_date_selected int_date_parsing)
qed

section \<open>Frames, filters and the selected frame\<close>

lemma filter_by_Nil [simp]: "filter_by [] xs = []" "filter_by ks [] = []"
  by (simp_all add: filter_by_def)

lemma filter_by_Cons [simp]:
  "filter_by (k # ks) (x # xs) = (if k then x # filter_by ks xs else filter_by ks xs)"
  by (simp add: filter_by_def)

lemma length_filter_by_le: "length (filter_by ks xs) \<le> length xs"
proof -
  have "length (filter fst (zip ks xs)) \<le> length (zip ks xs)"
    by (rule length_filter_le)
  then show ?thesis by (simp add: filter_by_def)
qed

lemma filter_by_all_True:
  "length ks = length xs \<Longrightarrow> \<forall>k \<in> set ks. k \<Longrightarrow> filter_by ks xs = xs"
  by (induction ks xs rule: list_induct2) auto

lemma filter_by_twice:
  "length ks = length ds \<Longrightarrow> length ds = length xs \<Longrightarrow>
   filter_by (map p (filter_by ks ds)) (filter_by ks xs)
     = filter_by (map2 (\<lambda>k d. k \<and> p d) ks ds) xs"
  by (induction ks ds xs rule: list_induct3) auto

lemma columns_filter_rows [simp]: "columns (filter_rows ks df) = columns df"
  by (induction df) (auto simp: columns_def filter_rows_def)

lemma map_of_filter_rows:
  "map_of (filter_rows ks df) n
     = map_option (\<lambda>c. c\<lparr>cells := filter_by ks (cells c)\<rparr>) (map_of df n)"
  by (induction df) (auto simp: filter_rows_def)

lemma height_filter_rows_le: "height (filter_rows ks df) \<le> height df"
  by (cases df) (auto simp: height_def filter_rows_def length_filter_by_le)

lemma wf_frame_length:
  "wf_frame df \<Longrightarrow> (n, c) \<in> set df \<Longrightarrow> length (cells c) = height df"
  by (auto simp: wf_frame_def list_all_iff)

lemma wf_frame_map_of:
  "wf_frame df \<Longrightarrow> map_of df n = Some c \<Longrightarrow> length (cells c) = height df"
  by (auto dest: map_of_SomeD wf_frame_length)

lemma filter_rows_twice:
  assumes "\<forall>(n, c) \<in> set df. length (cells c) = length ks" "length ds = length ks"
  shows "filter_rows (map p (filter_by ks ds)) (filter_rows ks df)
           = filter_rows (map2 (\<lambda>k d. k \<and> p d) ks ds) df"
  using assms by (auto simp: filter_rows_def filter_by_twice)

lemma filter_rows_all_True:
  assumes "\<forall>(n, c) \<in> set df. length (cells c) = length ks" "\<forall>k \<in> set ks. k"
  shows "filter_rows ks df = df"
  using assms by (induction df) (auto simp: filter_rows_def filter_by_all_True)

lemma candidates_subset: "set (candidates p df) \<subseteq> set df"
  by (auto simp: candidates_def)

lemma candidates_hd_mem: "candidates p df = (n, c) # rest \<Longrightarrow> (n, c) \<in> set df"
  using candidates_subset [of p df] by auto

lemma key_field_eq:
  "key_field df (tok, alias) =
     (case candidates (contains tok) df of [] \<Rightarrow> [] | (n, c) # rest \<Rightarrow> [(alias, c)])"
  by (simp add: key_field_def split: list.splits)

lemma map_of_key_field:
  "map_of (key_field df (tok, alias)) n =
     (if n = alias
      then (case candidates (contains tok) df of [] \<Rightarrow> None | (m, c) # rest \<Rightarrow> Some c)
      else None)"
  by (auto simp: key_field_eq split: list.splits)

lemma columns_append: "columns (xs @ ys) = columns xs @ columns ys"
  by (simp add: columns_def)

lemma columns_key_field: "set (columns (key_field df ca)) \<subseteq> {snd ca}"
  by (auto simp: key_field_def columns_def split: list.splits)

lemma distinct_key_field: "distinct (columns (key_field df ca))"
  by (auto simp: key_field_def columns_def split: list.splits)

lemma key_field_mem:
  assumes "(n, c) \<in> set (key_field df ca)"
  shows "\<exists>m. (m, c) \<in> set df"
proof (cases "candidates (contains (fst ca)) df")
  case Nil
  with assms show ?thesis by (simp add: key_field_def)
next
  case (Cons x rest)
  obtain m c' where x: "x = (m, c')" by (cases x)
  from Cons x assms have "c = c'" by (simp add: key_field_def)
  moreover from Cons x have "(m, c') \<in> set df" by (auto dest: candidates_hd_mem)
  ultimately show ?thesis by blast
qed

lemma columns_key_fields:
  "set (columns (concat (map (key_field df) kfs))) \<subseteq> snd ` set kfs"
proof (induction kfs)
  case Nil
  then show ?case by (simp add: columns_def)
next
  case (Cons kf kfs)
  have "columns (concat (map (key_field df) (kf # kfs)))
          = columns (key_field df kf) @ columns (concat (map (key_field df) kfs))"
    by (simp add: columns_append)
  with Cons columns_key_field [of df kf] show ?case by auto
qed

lemma distinct_key_fields:
  "distinct (map snd kfs) \<Longrightarrow> distinct (columns (concat (map (key_field df) kfs)))"
proof (induction kfs)
  case Nil
  then show ?case by (simp add: columns_def)
next
  case (Cons kf kfs)
  have split: "columns (concat (map (key_field df) (kf # kfs)))
          = columns (key_field df kf) @ columns (concat (map (key_field df) kfs))"
    by (simp add: columns_append)
  have "set (columns (key_field df kf)) \<inter> set (columns (concat (map (key_field df) kfs))) = {}"
    using columns_key_field [of df kf] columns_key_fields [of df kfs] Cons.prems by auto
  moreover have "distinct (columns (concat (map (key_field df) kfs)))"
    using Cons by simp
  ultimately show ?case
    unfolding split by (simp add: distinct_key_field)
qed

lemma key_fields_mem:
  "(n, c) \<in> set (concat (map (key_field df) kfs)) \<Longrightarrow> \<exists>m. (m, c) \<in> set df"
  by (auto dest: key_field_mem)

lemma selected_eq:
  "selected df amt =
     (''amount'', amount_column amt) # date_part df @ concat (map (key_field df) key_fields)"
  by (simp add: selected_def date_part_def)

lemma columns_date_part: "set (columns (date_part df)) \<subseteq> {''posting_date''}"
  by (auto simp: date_part_def columns_def split: list.splits)

lemma distinct_date_part: "distinct (columns (date_part df))"
  by (auto simp: date_part_def columns_def split: list.splits)

lemma date_part_mem:
  assumes "(n, c) \<in> set (date_part df)"
  shows "\<exists>m. (m, c) \<in> set df"
proof (cases "date_candidates df")
  case Nil
  with assms show ?thesis by (simp add: date_part_def)
next
  case (Cons x rest)
  obtain m c' where x: "x = (m, c')" by (cases x)
  from Cons x assms have "c = c'" by (simp add: date_part_def)
  moreover from Cons x have "(m, c') \<in> set df"
    by (auto simp: date_candidates_def dest: candidates_hd_mem)
  ultimately show ?thesis by blast
qed

lemma height_selected [simp]: "height (selected df amt) = length amt"
  by (simp add: selected_def height_def amount_column_def)

lemma amount_in_selected [simp]: "''amount'' \<in> set (columns (selected df amt))"
  by (simp add: selected_def columns_def)

lemma map_of_selected_amount [simp]:
  "map_of (selected df amt) ''amount'' = Some (amount_column amt)"
  by (simp add: selected_def)

lemma distinct_selected: "distinct (columns (selected df amt))"
proof -
  have kf: "distinct (columns (concat (map (key_field df) key_fields)))"
    by (rule distinct_key_fields) (simp add: key_fields_def)
  have sub: "set (columns (concat (map (key_field df) key_fields))) \<subseteq> snd ` set key_fields"
    by (rule columns_key_fields)
  have a: "''amount'' \<notin> snd ` set key_fields" and d: "''posting_date'' \<notin> snd ` set key_fields"
    by (simp_all add: key_fields_def)
  have cols: "columns (selected df amt)
         = ''amount'' # columns (date_part df) @ columns (concat (map (key_field df) key_fields))"
    by (simp add: selected_eq columns_def)
  have "''amount'' \<notin> set (columns (date_part df))"
    using columns_date_part [of df] by auto
  moreover have "''amount'' \<notin> set (columns (concat (map (key_field df) key_fields)))"
    using sub a by auto
  moreover have "set (columns (date_part df)) \<inter> set (columns (concat (map (key_field df) key_fields))) = {}"
    using columns_date_part [of df] sub d by auto
  ultimately show ?thesis
    unfolding cols using kf by (simp add: distinct_date_part)
qed

lemma selected_mem:
  assumes "(n, c) \<in> set (selected df amt)"
  shows "c = amount_column amt \<or> (\<exists>m. (m, c) \<in> set df)"
proof -
  from assms consider "c = amount_column amt" | "(n, c) \<in> set (date_part df)"
    | "(n, c) \<in> set (concat (map (key_field df) key_fields))"
    unfolding selected_eq by auto
  then show ?thesis
  proof cases
    case 1
    then show ?thesis by simp
  next
    case 2
    then show ?thesis using date_part_mem by blast
  next
    case 3
    then show ?thesis using key_fields_mem by blast
  qed
qed

lemma wf_selected:
  assumes "wf_frame df" "length amt = height df"
  shows "wf_frame (selected df amt)"
proof -
  have "length (cells c) = length amt" if "(n, c) \<in> set (selected df amt)" for n c
    using selected_mem [OF that] assms
    by (auto simp: amount_column_def dest: wf_frame_length)
  then show ?thesis
    by (auto simp: wf_frame_def distinct_selected list_all_iff)
qed

section \<open>Smart date parsing\<close>

lemma in_columns_iff: "n \<in> set (columns df) \<longleftrightarrow> map_of df n \<noteq> None"
  by (simp add: columns_def map_of_eq_None_iff)

lemma strptime_loop_all_raise:
  "\<forall>fmt. with_strptime pl fmt sel = Inl (e fmt) \<Longrightarrow>
   strptime_loop pl fmts (parsed, sel) = (if fmts = [] then parsed else Some (last fmts), sel)"
  by (induction fmts arbitrary: parsed) auto

lemma smart_date_parsing_eq:
  "smart_date_parsing pl sel =
     (case map_of sel ''posting_date'' of
        None \<Rightarrow> sel
      | Some d \<Rightarrow> if dtype d = Utf8 then parse_first_format pl sel else sel)"
proof (cases "map_of sel ''posting_date''")
  case None
  then show ?thesis
    by (simp add: smart_date_parsing_def in_columns_iff)
next
  case (Some d)
  show ?thesis
  proof (cases "dtype d = Utf8")
    case True
    with Some show ?thesis
      by (simp add: smart_date_parsing_def in_columns_iff date_formats_def with_strptime_def
          get_column_def parse_first_format_def)
  next
    case False
    with Some have raises: "\<forall>fmt. with_strptime pl fmt sel
                      = Inl ((\<lambda>f. SchemaError ''invalid series dtype: expected String'') fmt)"
      by (simp add: with_strptime_def get_column_def)
    have ne: "date_formats \<noteq> []"
      by (simp add: date_formats_def)
    have "strptime_loop pl date_formats (None, sel)
            = (if date_formats = [] then None else Some (last date_formats), sel)"
      by (rule strptime_loop_all_raise [OF raises])
    with ne have "strptime_loop pl date_formats (None, sel) = (Some (last date_formats), sel)"
      by simp
    with Some False show ?thesis
      by (simp add: smart_date_parsing_def in_columns_iff)
  qed
qed

lemma columns_parse_first_format [simp]: "columns (parse_first_format pl sel) = columns sel"
  by (induction sel) (auto simp: parse_first_format_def columns_def)

lemma columns_smart_date_parsing [simp]: "columns (smart_date_parsing pl sel) = columns sel"
  by (simp add: smart_date_parsing_eq split: option.splits)

lemma map_of_parse_first_format:
  "map_of (parse_first_format pl sel) n =
     (if n = ''posting_date''
      then map_option (\<lambda>c. \<lparr>dtype = Datetime, cells = map (strptime_cell pl ''%Y-%m-%d'') (cells c)\<rparr>)
             (map_of sel n)
      else map_of sel n)"
  by (induction sel) (auto simp: parse_first_format_def)

lemma map_of_smart_date_parsing_other:
  "n \<noteq> ''posting_date'' \<Longrightarrow> map_of (smart_date_parsing pl sel) n = map_of sel n"
  by (simp add: smart_date_parsing_eq map_of_parse_first_format split: option.splits)

lemma parse_first_format_mem:
  "(n, c) \<in> set (parse_first_format pl sel) \<Longrightarrow>
   \<exists>c'. (n, c') \<in> set sel \<and> length (cells c) = length (cells c')"
  by (auto simp: parse_first_format_def split: if_splits)

lemma height_parse_first_format [simp]: "height (parse_first_format pl sel) = height sel"
  by (cases sel) (auto simp: parse_first_format_def height_def)

lemma height_smart_date_parsing [simp]: "height (smart_date_parsing pl sel) = height sel"
  by (simp add: smart_date_parsing_eq split: option.splits)

lemma wf_parse_first_format: "wf_frame sel \<Longrightarrow> wf_frame (parse_first_format pl sel)"
  unfolding wf_frame_def list_all_iff
  by (auto dest!: parse_first_format_mem)

lemma wf_smart_date_parsing: "wf_frame sel \<Longrightarrow> wf_frame (smart_date_parsing pl sel)"
  by (simp add: smart_date_parsing_eq wf_parse_first_format split: option.splits)

section \<open>The row cleaner\<close>

text \<open>
  C7. On a selected frame (columns of one length, among them \<open>amount\<close>) the row
  cleaner keeps row \<open>i\<close> exactly when its amount is not null and, if the frame has a
  \<open>posting_date\<close> column, its posting date is not null; no other row is dropped, and
  the cleaned frame has at most as many rows as the selected one.
\<close>

theorem clean_keeps_exactly_the_usable_rows:
  assumes wf: "wf_frame sel" and amt: "''amount'' \<in> set (columns sel)"
  shows "clean sel = Inr (filter_rows (map (survives sel) [0..<height sel]) sel)
         \<and> height (filter_rows (map (survives sel) [0..<height sel]) sel) \<le> height sel"
proof -
  from amt obtain a where a: "map_of sel ''amount'' = Some a"
    by (cases "map_of sel ''amount''") (auto simp: columns_def map_of_eq_None_iff)
  have la: "length (cells a) = height sel"
    using wf a by (rule wf_frame_map_of)
  have all: "\<forall>(n, c) \<in> set sel. length (cells c) = length (map is_not_null (cells a))"
    using wf la by (auto dest: wf_frame_length)
  show ?thesis
  proof (cases "map_of sel ''posting_date''")
    case None
    have "map (survives sel) [0..<height sel] = map is_not_null (cells a)"
      using la by (auto simp: survives_def a None is_not_null_def intro!: nth_equalityI)
    then show ?thesis
      by (simp add: clean_def get_column_def a None map_of_filter_rows height_filter_rows_le)
  next
    case (Some d)
    have ld: "length (cells d) = height sel"
      using wf Some by (rule wf_frame_map_of)
    have "map (survives sel) [0..<height sel]
            = map2 (\<lambda>k d. k \<and> is_not_null d) (map is_not_null (cells a)) (cells d)"
      using la ld by (auto simp: survives_def a Some is_not_null_def intro!: nth_equalityI)
    moreover have "filter_rows (map is_not_null (filter_by (map is_not_null (cells a)) (cells d)))
                     (filter_rows (map is_not_null (cells a)) sel)
                   = filter_rows (map2 (\<lambda>k d. k \<and> is_not_null d) (map is_not_null (cells a)) (cells d)) sel"
      using all la ld by (intro filter_rows_twice) auto
    ultimately show ?thesis
      by (simp add: clean_def get_column_def a Some map_of_filter_rows height_filter_rows_le)
  qed
qed


section \<open>Amount reconciliation, cleaning and the high-value rule\<close>

lemma clean_succeeds:
  assumes "''amount'' \<in> set (columns sel)"
  shows "\<exists>cleaned. clean sel = Inr cleaned"
proof -
  from assms obtain a where "map_of sel ''amount'' = Some a"
    by (auto simp: in_columns_iff)
  then show ?thesis
    by (simp add: clean_def get_column_def Let_def split: option.splits)
qed

lemma clean_columns:
  "clean sel = Inr cleaned \<Longrightarrow> columns cleaned = columns sel"
  by (auto simp: clean_def get_column_def Let_def split: option.splits)

lemma clean_dtype:
  "clean sel = Inr cleaned \<Longrightarrow> map_option dtype (map_of cleaned n) = map_option dtype (map_of sel n)"
  by (cases "map_of sel n")
     (auto simp: clean_def get_column_def Let_def map_of_filter_rows split: option.splits)

text \<open>
  C4. When a debit and a credit column both resolve, the amount is debit minus credit of
  the first matching debit and credit columns, whatever amount-matching column the
  table has: the result does not mention it. When the pair does not resolve and an
  amount column does, the amount is the non-strict cast of that column, in which a
  string that is not a number becomes null.
\<close>

theorem debit_credit_takes_priority:
  "(debit_candidates df = (dn, dr_col) # ds \<and> credit_candidates df = (cn, cr_col) # cs \<longrightarrow>
      amount_series pl df
        = Inr (map Some (map2 f64_sub (dr_cr_series pl dr_col) (dr_cr_series pl cr_col))))
   \<and> ((debit_candidates df = [] \<or> credit_candidates df = []) \<and>
        amount_candidates df = (an, amt_col) # rest \<longrightarrow>
      amount_series pl df = Inr (map (cast_f64 pl) (cells amt_col)))
   \<and> (utf8_to_f64 pl s = None \<longrightarrow> cast_f64 pl (VStr s) = None)"
  by (auto simp: amount_series_def cast_f64_def split: list.splits)

lemma dr_cr_series_length [simp]: "length (dr_cr_series pl c) = length (cells c)"
  by (simp add: dr_cr_series_def)

lemma amount_series_length:
  assumes "wf_frame df" "amount_series pl df = Inr amt"
  shows "length amt = height df"
proof (cases "debit_candidates df")
  case Nil
  with assms(2) obtain an ac as where ac: "amount_candidates df = (an, ac) # as"
      and amt: "amt = map (cast_f64 pl) (cells ac)"
    by (auto simp: amount_series_def split: list.splits)
  from ac have "(an, ac) \<in> set df"
    by (auto simp: amount_candidates_def dest: candidates_hd_mem)
  with assms(1) amt show ?thesis by (auto dest: wf_frame_length)
next
  case (Cons d ds)
  obtain dn dc where d: "d = (dn, dc)" by (cases d)
  show ?thesis
  proof (cases "credit_candidates df")
    case Nil
    with Cons assms(2) obtain an ac as where ac: "amount_candidates df = (an, ac) # as"
        and amt: "amt = map (cast_f64 pl) (cells ac)"
      by (auto simp: amount_series_def split: list.splits)
    from ac have "(an, ac) \<in> set df"
      by (auto simp: amount_candidates_def dest: candidates_hd_mem)
    with assms(1) amt show ?thesis by (auto dest: wf_frame_length)
  next
    case c: (Cons c cs)
    obtain cn cc where cc: "c = (cn, cc)" by (cases c)
    from Cons d have "(dn, dc) \<in> set df"
      by (auto simp: debit_candidates_def dest: candidates_hd_mem)
    with assms(1) have "length (cells dc) = height df"
      by (rule wf_frame_length)
    moreover from c cc have "(cn, cc) \<in> set df"
      by (auto simp: credit_candidates_def dest: candidates_hd_mem)
    with assms(1) have "length (cells cc) = height df"
      by (rule wf_frame_length)
    moreover from Cons d c cc assms(2)
    have "amt = map Some (map2 f64_sub (dr_cr_series pl dc) (dr_cr_series pl cc))"
      by (simp add: amount_series_def)
    ultimately show ?thesis
      by simp
  qed
qed

lemma wf_pipeline_selected:
  assumes "wf_frame df" "amount_series pl df = Inr amt"
  shows "wf_frame (smart_date_parsing pl (selected df amt))"
  using assms by (intro wf_smart_date_parsing wf_selected amount_series_length)

text \<open>
  C10. On the debit/credit path every amount is non-null, so the amount filter of
  the row cleaner removes no row: the cleaned frame is the selected frame, filtered
  by the nulls of \<open>posting_date\<close> only (when there is such a column).
\<close>

theorem debit_credit_amount_never_null:
  assumes wf: "wf_frame df"
    and dr: "debit_candidates df = (dn, dr_col) # ds"
    and cr: "credit_candidates df = (cn, cr_col) # cs"
    and sel: "sel = smart_date_parsing pl (selected df amt)"
    and amt: "amt = map Some (map2 f64_sub (dr_cr_series pl dr_col) (dr_cr_series pl cr_col))"
  shows "amount_series pl df = Inr amt
         \<and> None \<notin> set amt
         \<and> filter_rows (map is_not_null (cells (amount_column amt))) sel = sel
         \<and> clean sel =
             Inr (case map_of sel ''posting_date'' of
                    None \<Rightarrow> sel
                  | Some d \<Rightarrow> filter_rows (map is_not_null (cells d)) sel)"
proof -
  have series: "amount_series pl df = Inr amt"
    using dr cr amt by (simp add: amount_series_def)
  have nonnull: "None \<notin> set amt"
    using amt by auto
  have wfs: "wf_frame sel"
    unfolding sel using wf series by (rule wf_pipeline_selected)
  have a: "map_of sel ''amount'' = Some (amount_column amt)"
    unfolding sel by (simp add: map_of_smart_date_parsing_other)
  have len: "\<forall>(n, c) \<in> set sel. length (cells c) = length (map is_not_null (cells (amount_column amt)))"
    using wfs wf_frame_map_of [OF wfs a] by (auto dest: wf_frame_length)
  have true: "\<forall>k \<in> set (map is_not_null (cells (amount_column amt))). k"
    using amt by (auto simp: amount_column_def is_not_null_def)
  have keep: "filter_rows (map is_not_null (cells (amount_column amt))) sel = sel"
    using len true by (rule filter_rows_all_True)
  have "clean sel =
             Inr (case map_of sel ''posting_date'' of
                    None \<Rightarrow> sel
                  | Some d \<Rightarrow> filter_rows (map is_not_null (cells d)) sel)"
    by (simp add: clean_def get_column_def a keep split: option.splits)
  with series nonnull keep show ?thesis by simp
qed

text \<open>Every cleaned frame of the pipeline has columns of one length and an amount column
  of non-null floats.\<close>

lemma filter_by_map_self: "filter_by (map p xs) xs = filter p xs"
  by (induction xs) auto

lemma set_filter_by_subset: "set (filter_by ks xs) \<subseteq> set xs"
  by (auto simp: filter_by_def dest: set_zip_rightD)

lemma length_filter_by:
  "length ks = length xs \<Longrightarrow> length (filter_by ks xs) = length (filter id ks)"
  by (induction ks xs rule: list_induct2) auto

lemma wf_filter_rows:
  assumes wf: "wf_frame df" and len: "length ks = height df"
  shows "wf_frame (filter_rows ks df)"
proof (cases df)
  case Nil
  then show ?thesis by (simp add: wf_frame_def filter_rows_def columns_def)
next
  case (Cons x rest)
  obtain n0 c0 where x: "x = (n0, c0)" by (cases x)
  have "length (cells c0) = length ks"
    using wf len Cons x by (auto dest: wf_frame_length)
  then have h: "height (filter_rows ks df) = length (filter id ks)"
    using Cons x by (simp add: height_def filter_rows_def length_filter_by)
  have "length (cells c) = length (filter id ks)" if "(n, c) \<in> set (filter_rows ks df)" for n c
  proof -
    from that obtain c' where c': "(n, c') \<in> set df" "c = c'\<lparr>cells := filter_by ks (cells c')\<rparr>"
      by (auto simp: filter_rows_def)
    from wf c'(1) len have "length (cells c') = length ks"
      by (auto dest: wf_frame_length)
    with c'(2) show ?thesis by (simp add: length_filter_by)
  qed
  with h wf show ?thesis
    by (auto simp: wf_frame_def list_all_iff)
qed

lemma all_floats: "\<forall>c \<in> set cs. \<exists>x. c = VFloat x \<Longrightarrow> \<exists>amts. cs = map VFloat amts"
proof (induction cs)
  case Nil
  then show ?case by simp
next
  case (Cons c cs)
  then obtain amts where "cs = map VFloat amts" by auto
  moreover from Cons.prems obtain x where "c = VFloat x" by auto
  ultimately have "c # cs = map VFloat (x # amts)" by simp
  then show ?case by (rule exI)
qed

lemma amount_column_not_null:
  "c \<in> set (filter is_not_null (cells (amount_column amt))) \<Longrightarrow> \<exists>x. c = VFloat x"
  by (auto simp: amount_column_def is_not_null_def split: option.splits)

lemma clean_amount_column:
  assumes wf: "wf_frame sel" and a: "map_of sel ''amount'' = Some (amount_column amt)"
    and cl: "clean sel = Inr cleaned"
  shows "wf_frame cleaned
         \<and> (\<exists>amts. map_of cleaned ''amount'' = Some \<lparr>dtype = Float64, cells = map VFloat amts\<rparr>)"
proof -
  define keep where "keep = map is_not_null (cells (amount_column amt))"
  define kept where "kept = filter is_not_null (cells (amount_column amt))"
  define c1 where "c1 = filter_rows keep sel"
  have len1: "length keep = height sel"
    using wf_frame_map_of [OF wf a] by (simp add: keep_def)
  have wf1: "wf_frame c1"
    unfolding c1_def using wf len1 by (rule wf_filter_rows)
  have kept: "filter_by keep (cells (amount_column amt)) = kept"
    unfolding keep_def kept_def by (rule filter_by_map_self)
  have upd: "(amount_column amt)\<lparr>cells := X\<rparr> = \<lparr>dtype = Float64, cells = X\<rparr>" for X
    by (simp add: amount_column_def)
  have "map_of c1 ''amount''
          = Some ((amount_column amt)\<lparr>cells := filter_by keep (cells (amount_column amt))\<rparr>)"
    unfolding c1_def by (simp only: map_of_filter_rows a option.map)
  then have a1: "map_of c1 ''amount'' = Some \<lparr>dtype = Float64, cells = kept\<rparr>"
    by (simp only: kept upd)
  have floats: "\<exists>x. c = VFloat x" if "c \<in> set kept" for c
    using that unfolding kept_def by (rule amount_column_not_null)
  have body: "clean sel =
      Inr (case map_of c1 ''posting_date'' of
             None \<Rightarrow> c1
           | Some d \<Rightarrow> filter_rows (map is_not_null (cells d)) c1)"
    unfolding c1_def keep_def
    by (simp add: clean_def get_column_def a split: option.splits)
  show ?thesis
  proof (cases "map_of c1 ''posting_date''")
    case None
    with cl body have c: "cleaned = c1" by simp
    from floats have "\<forall>c \<in> set kept. \<exists>x. c = VFloat x" by (intro ballI)
    from all_floats [OF this] obtain amts where f: "kept = map VFloat amts" ..
    have "map_of cleaned ''amount'' = Some \<lparr>dtype = Float64, cells = map VFloat amts\<rparr>"
      by (simp only: c a1 f)
    then have "\<exists>amts. map_of cleaned ''amount'' = Some \<lparr>dtype = Float64, cells = map VFloat amts\<rparr>"
      by (rule exI)
    moreover have "wf_frame cleaned"
      using wf1 by (simp only: c)
    ultimately show ?thesis by (intro conjI)
  next
    case (Some d)
    define keep2 where "keep2 = map is_not_null (cells d)"
    from Some cl body have cleaned: "cleaned = filter_rows keep2 c1"
      by (simp add: keep2_def)
    have "length keep2 = height c1"
      using wf_frame_map_of [OF wf1 Some] by (simp add: keep2_def)
    with wf1 have wf2: "wf_frame cleaned"
      unfolding cleaned by (rule wf_filter_rows)
    have upd2: "\<lparr>dtype = Float64, cells = X\<rparr>\<lparr>cells := Y\<rparr> = \<lparr>dtype = Float64, cells = Y\<rparr>" for X Y
      by simp
    have sel2: "cells \<lparr>dtype = Float64, cells = X\<rparr> = X" for X
      by simp
    have a2: "map_of cleaned ''amount'' = Some \<lparr>dtype = Float64, cells = filter_by keep2 kept\<rparr>"
      unfolding cleaned by (simp only: map_of_filter_rows a1 option.map upd2 sel2)
    have "\<forall>c \<in> set (filter_by keep2 kept). \<exists>x. c = VFloat x"
    proof (intro ballI)
      fix c
      assume "c \<in> set (filter_by keep2 kept)"
      with set_filter_by_subset have "c \<in> set kept" by (rule subsetD)
      then show "\<exists>x. c = VFloat x" by (rule floats)
    qed
    from all_floats [OF this] obtain amts where f: "filter_by keep2 kept = map VFloat amts" ..
    have "map_of cleaned ''amount'' = Some \<lparr>dtype = Float64, cells = map VFloat amts\<rparr>"
      by (simp only: a2 f)
    then have "\<exists>amts. map_of cleaned ''amount'' = Some \<lparr>dtype = Float64, cells = map VFloat amts\<rparr>"
      by (rule exI)
    with wf2 show ?thesis by (intro conjI)
  qed
qed

lemma pipeline_cleaned_amounts:
  assumes "wf_frame df" "amount_series pl df = Inr amt"
    and "clean (smart_date_parsing pl (selected df amt)) = Inr cleaned"
  shows "wf_frame cleaned
         \<and> (\<exists>amts. map_of cleaned ''amount'' = Some \<lparr>dtype = Float64, cells = map VFloat amts\<rparr>)"
proof -
  have "wf_frame (smart_date_parsing pl (selected df amt))"
    using assms(1,2) by (rule wf_pipeline_selected)
  moreover have "map_of (smart_date_parsing pl (selected df amt)) ''amount''
                   = Some (amount_column amt)"
    by (simp add: map_of_smart_date_parsing_other)
  ultimately show ?thesis
    using assms(3) by (rule clean_amount_column)
qed

lemma drop_nulls_map_Some [simp]: "drop_nulls (map Some xs) = xs"
  by (induction xs) auto

text \<open>
  C6. On a cleaned frame, whose amounts are non-null (\<open>pipeline_cleaned_amounts\<close>), the
  High-Value Entry of a row is true exactly when the frame has more than 10 rows and
  the absolute amount of the row is at or above the 0.99 quantile of the absolute
  amounts of the whole frame; with 10 rows or fewer every row has the flag false.
\<close>

theorem high_value_entry_iff:
  assumes wf: "wf_frame cleaned"
    and amt: "map_of cleaned ''amount'' = Some \<lparr>dtype = Float64, cells = map VFloat amts\<rparr>"
  shows "high_value_entry pl cleaned =
           Inr (bool_column (map (\<lambda>x. Some (10 < height cleaned
                  \<and> f64_ge (f64_abs x) (quantile99 pl (map f64_abs amts)))) amts))
         \<and> (height cleaned \<le> 10 \<longrightarrow>
              high_value_entry pl cleaned = Inr (bool_column (replicate (height cleaned) (Some False))))"
proof -
  have len: "length amts = height cleaned"
    using wf_frame_map_of [OF wf amt] by simp
  have am: "amounts cleaned = Inr (map Some amts)"
    by (simp add: amounts_def get_column_def amt f64_of_cell_def comp_def)
  have small: "high_value_entry pl cleaned = Inr (bool_column (replicate (height cleaned) (Some False)))"
    if "height cleaned \<le> 10"
    using that by (simp add: high_value_entry_def lit_False_def)
  have "high_value_entry pl cleaned =
           Inr (bool_column (map (\<lambda>x. Some (10 < height cleaned
                  \<and> f64_ge (f64_abs x) (quantile99 pl (map f64_abs amts)))) amts))"
  proof (cases "10 < height cleaned")
    case True
    then show ?thesis
      by (simp add: high_value_entry_def am comp_def)
  next
    case False
    have "map (\<lambda>x. Some False) amts = replicate (height cleaned) (Some False)"
      using len by (simp add: map_replicate_const)
    with False show ?thesis
      by (simp add: high_value_entry_def lit_False_def)
  qed
  with small show ?thesis by simp
qed

section \<open>The imbalance percentage\<close>

lemma finite_list: "list_all f64_is_finite amts \<Longrightarrow> \<exists>rs. amts = map Fin rs"
proof (induction amts)
  case Nil
  then show ?case by simp
next
  case (Cons a amts)
  then obtain rs where "amts = map Fin rs" by auto
  moreover from Cons.prems obtain r where "a = Fin r"
    by (cases a) (auto simp: f64_is_finite_def)
  ultimately have "a # amts = map Fin (r # rs)" by simp
  then show ?case by (rule exI)
qed

lemma f64_add_representable: "f64_add x y = Fin r \<Longrightarrow> f64_round r = r"
  by (cases x; cases y) (simp_all add: f64_of_real_representable)

lemma f64_sum_representable: "f64_sum xs = Fin r \<Longrightarrow> f64_round r = r"
proof (induction xs arbitrary: r rule: rev_induct)
  case Nil
  then show ?case by (simp add: f64_sum_def)
next
  case (snoc x xs)
  then have "f64_add (f64_sum xs) x = Fin r" by (simp add: f64_sum_def)
  then show ?case by (rule f64_add_representable)
qed

text \<open>One more row: rounding is monotone and commutes with the absolute value, so the
  sum of the amounts stays below the sum of the absolute values.\<close>

lemma dominated_step:
  assumes "dominated x X"
  shows "dominated (f64_add x (Fin r)) (f64_add X (Fin \<bar>r\<bar>))"
proof (cases X)
  case (Fin S)
  with assms obtain s where x: "x = Fin s" and le: "\<bar>s\<bar> \<le> S"
    by (auto simp: dominated_def split: f64.splits)
  have "\<bar>f64_round (s + r)\<bar> = f64_round \<bar>s + r\<bar>"
    by (simp add: f64_round_abs)
  also have "\<dots> \<le> f64_round (S + \<bar>r\<bar>)"
    using le by (intro f64_round_mono) simp
  finally have dom: "\<bar>f64_round (s + r)\<bar> \<le> f64_round (S + \<bar>r\<bar>)" .
  show ?thesis
  proof (cases "f64_max < f64_round (S + \<bar>r\<bar>)")
    case True
    then have "f64_of_real (S + \<bar>r\<bar>) = PInf"
      by (simp add: f64_of_real_def Let_def)
    then show ?thesis
      using x Fin by (simp add: dominated_def)
  next
    case False
    with dom have "\<bar>f64_round (s + r)\<bar> \<le> f64_max" by simp
    then have 1: "f64_of_real (s + r) = Fin (f64_round (s + r))"
      by (rule f64_of_real_bounded)
    from dom False have "\<bar>f64_round (S + \<bar>r\<bar>)\<bar> \<le> f64_max" by simp
    then have 2: "f64_of_real (S + \<bar>r\<bar>) = Fin (f64_round (S + \<bar>r\<bar>))"
      by (rule f64_of_real_bounded)
    show ?thesis
      using x Fin 1 2 dom by (simp add: dominated_def)
  qed
next
  case PInf
  with assms have "x \<noteq> NaN" by (simp add: dominated_def)
  then have "f64_add x (Fin r) \<noteq> NaN" by (cases x) simp_all
  with PInf show ?thesis by (simp add: dominated_def)
qed (use assms in \<open>simp_all add: dominated_def\<close>)

lemma dominated_foldl:
  "dominated x X \<Longrightarrow>
   dominated (foldl f64_add x (map Fin rs)) (foldl f64_add X (map (\<lambda>r. Fin \<bar>r\<bar>) rs))"
  by (induction rs arbitrary: x X) (simp_all add: dominated_step)

lemma dominated_sums:
  "dominated (f64_sum (map Fin rs)) (f64_sum (map f64_abs (map Fin rs)))"
proof -
  have "dominated (Fin 0) (Fin 0)" by (simp add: dominated_def)
  from dominated_foldl [OF this, of rs] show ?thesis
    by (simp add: f64_sum_def comp_def)
qed

text \<open>A quotient between 0 and 1 is reported as a percentage between 0 and 100.\<close>

lemma f64_round_100: "f64_round 100 = 100"
  by (rule f64_round_numeral) simp

lemma percent_of_quotient:
  assumes "0 \<le> q" "q \<le> 1"
  shows "in_percent_range (py_round2 (f64_mul (f64_of_real q) (Fin 100)))"
proof -
  have "\<exists>y. f64_of_real q = Fin y \<and> 0 \<le> y \<and> y \<le> 1"
    using f64_max_pos f64_max_ge_100 assms by (intro f64_of_real_between) simp_all
  then obtain y where y: "f64_of_real q = Fin y" "0 \<le> y" "y \<le> 1" by blast
  have "\<exists>p. f64_of_real (y * 100) = Fin p \<and> 0 \<le> p \<and> p \<le> 100"
    using f64_max_pos f64_max_ge_100 y(2,3)
    by (intro f64_of_real_between) (simp_all add: f64_round_100)
  then obtain p where p: "f64_of_real (y * 100) = Fin p" "0 \<le> p" "p \<le> 100" by blast
  define n where "n = round_half_even (p * 100)"
  have "of_int 0 \<le> p * 100"
    using p(2) by simp
  then have "0 \<le> n"
    unfolding n_def by (rule round_half_even_ge)
  have "p * 100 \<le> of_int 10000"
    using p(3) by simp
  then have "n \<le> 10000"
    unfolding n_def by (rule round_half_even_le)
  with \<open>0 \<le> n\<close>
  have "0 \<le> (of_int n :: real) / 100" "(of_int n :: real) / 100 \<le> 100"
    by simp_all
  then have "\<exists>r. f64_of_real (of_int n / 100) = Fin r \<and> 0 \<le> r \<and> r \<le> 100"
    using f64_max_pos f64_max_ge_100
    by (intro f64_of_real_between) (simp_all add: f64_round_100)
  then obtain r where "f64_of_real (of_int n / 100) = Fin r" "0 \<le> r" "r \<le> 100" by blast
  with y(1) p(1) show ?thesis
    by (simp add: n_def in_percent_range_def)
qed

lemma percent_of_zero: "in_percent_range (py_round2 (f64_mul (Fin 0) (Fin 100)))"
  using percent_of_quotient [of 0] by simp

lemma imbalance_pct_finite_amounts:
  "\<exists>pct. imbalance_pct (map Fin rs) = Inr pct
     \<and> (if f64_is_finite (f64_sum (map Fin rs))
        then in_percent_range (py_round2 pct) else py_round2 pct = NaN)"
proof -
  define t where "t = f64_sum (map Fin rs)"
  define X where "X = f64_sum (map f64_abs (map Fin rs))"
  have dom: "dominated t X"
    unfolding t_def X_def by (rule dominated_sums)
  obtain e where e: "f64_of_real (1 / 1000000) = Fin e" "0 < e"
    using millionth by (auto intro: less_le_trans [of 0 "1 / 2 ^ 20"])
  then have rep_e: "f64_round e = e"
    by (simp add: f64_of_real_representable)
  have pct: "imbalance_pct (map Fin rs)
      = (case py_truediv (f64_abs t) (f64_add X (Fin e)) of
           Inl err \<Rightarrow> Inl err | Inr q \<Rightarrow> Inr (f64_mul q (Fin 100)))"
    by (simp add: imbalance_pct_def Let_def t_def X_def e)
  show ?thesis
  proof (cases X)
    case (Fin A)
    with dom obtain s where s: "t = Fin s" "\<bar>s\<bar> \<le> A"
      by (auto simp: dominated_def split: f64.splits)
    from Fin have rep_A: "f64_round A = A"
      unfolding X_def by (rule f64_sum_representable)
    from s have "0 \<le> A + e" using e(2) by simp
    from f64_of_real_nonneg [OF this] show ?thesis
    proof
      assume "f64_of_real (A + e) = PInf"
      with Fin s pct have "imbalance_pct (map Fin rs) = Inr (f64_mul (Fin 0) (Fin 100))"
        by (simp add: py_truediv_def)
      with s(1) percent_of_zero show ?thesis
        by (simp add: t_def [symmetric] f64_is_finite_def)
    next
      assume "\<exists>y. f64_of_real (A + e) = Fin y \<and> 0 \<le> y \<and> y = f64_round (A + e)"
      then obtain d where d: "f64_of_real (A + e) = Fin d" "d = f64_round (A + e)" by blast
      have "f64_round A \<le> d" "f64_round e \<le> d"
        unfolding d(2) using e(2) s(2) by (simp_all add: f64_round_mono)
      with rep_A rep_e have "A \<le> d" "e \<le> d" by simp_all
      with e(2) s(2) have pos: "0 < d" and le: "\<bar>s\<bar> \<le> d" by simp_all
      from pos le have q: "0 \<le> \<bar>s\<bar> / d" "\<bar>s\<bar> / d \<le> 1" by simp_all
      from Fin s d pos pct
      have "imbalance_pct (map Fin rs) = Inr (f64_mul (f64_of_real (\<bar>s\<bar> / d)) (Fin 100))"
        by (simp add: py_truediv_def)
      with s(1) percent_of_quotient [OF q] show ?thesis
        by (simp add: t_def [symmetric] f64_is_finite_def)
    qed
  next
    case PInf
    with dom have nn: "t \<noteq> NaN" by (simp add: dominated_def)
    show ?thesis
    proof (cases t)
      case (Fin s)
      with PInf pct have "imbalance_pct (map Fin rs) = Inr (f64_mul (Fin 0) (Fin 100))"
        by (simp add: py_truediv_def)
      with Fin percent_of_zero show ?thesis
        by (simp add: t_def [symmetric] f64_is_finite_def)
    next
      case NaN
      with nn show ?thesis by simp
    qed (use PInf pct in \<open>simp_all add: py_truediv_def t_def [symmetric] f64_is_finite_def\<close>)
  qed (use dom in \<open>simp_all add: dominated_def\<close>)
qed

lemma f64_of_real_pow_1024: "f64_of_real (2 ^ 1023 + 2 ^ 1023) = PInf"
proof -
  have "(2::real) ^ 1023 + 2 ^ 1023 = 2 ^ 1024" by simp
  moreover have "f64_max < 2 ^ 1024" by (simp add: f64_max_def)
  ultimately show ?thesis
    by (simp only: f64_of_real_def Let_def f64_round_power if_True)
qed

lemma f64_of_real_pow_1023: "f64_of_real (2 ^ 1023) = Fin (2 ^ 1023)"
proof (rule f64_of_real_exact)
  show "f64_round (2 ^ 1023) = 2 ^ 1023" by (rule f64_round_power)
  show "\<bar>2 ^ 1023 :: real\<bar> \<le> f64_max" by (simp add: f64_max_def)
qed

lemma cancelling_overflow_example:
  "f64_sum [Fin (2 ^ 1023), Fin (- (2 ^ 1023))] = Fin 0
   \<and> f64_sum (map f64_abs [Fin (2 ^ 1023), Fin (- (2 ^ 1023))]) = PInf
   \<and> (\<exists>pct. imbalance_pct [Fin (2 ^ 1023), Fin (- (2 ^ 1023))] = Inr pct
         \<and> py_round2 pct = Fin 0)"
proof -
  have t: "f64_sum [Fin (2 ^ 1023), Fin (- (2 ^ 1023))] = Fin 0"
    using f64_of_real_pow_1023
    by (simp only: f64_sum_def foldl.simps f64_add.simps add_0) simp
  have a: "\<bar>(2::real) ^ 1023\<bar> = 2 ^ 1023" "\<bar>- ((2::real) ^ 1023)\<bar> = 2 ^ 1023"
    by simp_all
  have X: "f64_sum (map f64_abs [Fin (2 ^ 1023), Fin (- (2 ^ 1023))]) = PInf"
    using f64_of_real_pow_1023 f64_of_real_pow_1024
    by (simp only: f64_sum_def foldl.simps f64_add.simps add_0 list.map f64_abs.simps a)
  obtain e where "f64_of_real (1 / 1000000) = Fin e"
    using millionth by blast
  with t X have "imbalance_pct [Fin (2 ^ 1023), Fin (- (2 ^ 1023))] = Inr (Fin 0)"
    by (simp only: imbalance_pct_def Let_def py_truediv_def) simp
  with t X show ?thesis
    by simp
qed

text \<open>
  C8 (amended). The claim: for every non-empty cleaned set of finite amounts the reported
  Imbalance % lies in [0, 100]. Finite amounts can have an infinite sum: for two amounts
  of \<open>2 ^ 1023\<close> both \<open>total_net\<close> and \<open>abs_total\<close> overflow to infinity, their
  quotient is NaN and the reported value is NaN.
  What holds for finite amounts: the division never raises; when \<open>total_net\<close>, the
  sum of the amounts as computed, is finite, the reported percentage is a number in
  [0, 100], also when \<open>abs_total\<close> has overflowed (the quotient is then 0); and
  when \<open>total_net\<close> is not finite the reported value is NaN.
\<close>

theorem imbalance_in_range_when_sum_finite:
  assumes "list_all f64_is_finite amts"
  shows "\<exists>pct. imbalance_pct amts = Inr pct
     \<and> (if f64_is_finite (f64_sum amts)
        then in_percent_range (py_round2 pct) else py_round2 pct = NaN)"
proof -
  from finite_list [OF assms] obtain rs where "amts = map Fin rs" ..
  with imbalance_pct_finite_amounts [of rs] show ?thesis by simp
qed

theorem imbalance_overflow_counterexample:
  "list_all f64_is_finite [Fin (2 ^ 1023), Fin (2 ^ 1023)]
   \<and> imbalance_pct [Fin (2 ^ 1023), Fin (2 ^ 1023)] = Inr NaN
   \<and> py_round2 NaN = NaN
   \<and> \<not> in_percent_range NaN"
proof -
  have "f64_sum [Fin (2 ^ 1023), Fin (2 ^ 1023)] = PInf"
    using f64_of_real_pow_1023 f64_of_real_pow_1024
    by (simp only: f64_sum_def foldl.simps f64_add.simps add_0)
  moreover obtain e where "f64_of_real (1 / 1000000) = Fin e"
    using millionth by blast
  ultimately show ?thesis
    by (simp add: imbalance_pct_def py_truediv_def f64_is_finite_def in_percent_range_def)
qed

section \<open>Which steps can raise\<close>

lemma amount_series_cases:
  "(\<not> amount_bearing df \<and> amount_series pl df = Inl no_amount_column)
   \<or> (amount_bearing df \<and> (\<exists>amt. amount_series pl df = Inr amt))"
  by (auto simp: amount_series_def amount_bearing_def split: list.splits)

lemma get_column_Inr: "n \<in> set (columns df) \<Longrightarrow> \<exists>c. get_column df n = Inr c"
  by (auto simp: get_column_def in_columns_iff)

lemma amounts_Inr: "''amount'' \<in> set (columns df) \<Longrightarrow> \<exists>as. amounts df = Inr as"
  by (auto simp: amounts_def dest: get_column_Inr)

lemma evaluate_get_columns:
  "set ns \<subseteq> set (columns df) \<Longrightarrow>
   \<exists>cs. evaluate (map (\<lambda>n. (n, get_column df n)) ns) = Inr cs"
proof (induction ns)
  case Nil
  then show ?case by simp
next
  case (Cons n ns)
  then obtain cs where "evaluate (map (\<lambda>n. (n, get_column df n)) ns) = Inr cs" by auto
  moreover from Cons.prems obtain c where "get_column df n = Inr c"
    by (auto dest: get_column_Inr)
  ultimately show ?case by simp
qed

lemma any_horizontal_Inr:
  "set ns \<subseteq> set (columns df) \<Longrightarrow> \<exists>c. any_horizontal df ns = Inr c"
  by (auto simp: any_horizontal_def dest: evaluate_get_columns)

lemma filter_col_Inr:
  "n \<in> set (columns df) \<Longrightarrow> \<exists>r. filter_col df n = Inr r \<and> columns r = columns df"
  by (auto simp: filter_col_def dest: get_column_Inr)

lemma chart_counts_Inr:
  "set cols \<subseteq> set (columns an) \<Longrightarrow> \<exists>r. chart_counts an cols = Inr r \<and> map fst r = cols"
proof (induction cols)
  case Nil
  then show ?case by simp
next
  case (Cons col cols)
  then obtain r where "chart_counts an cols = Inr r" "map fst r = cols" by auto
  moreover from Cons.prems obtain hits where "filter_col an col = Inr hits"
    by (auto dest: filter_col_Inr)
  ultimately show ?case by simp
qed

lemma nonneg_simps [simp]:
  "nonneg (Fin r) = (0 \<le> r)" "nonneg PInf" "\<not> nonneg NInf" "nonneg NaN"
  by (simp_all add: nonneg_def)

lemma nonneg_of_real: "0 \<le> r \<Longrightarrow> nonneg (f64_of_real r)"
  using f64_of_real_nonneg [of r] by auto

lemma nonneg_add_abs: "nonneg acc \<Longrightarrow> nonneg (f64_add acc (f64_abs x))"
  by (cases acc; cases x) (simp_all add: nonneg_of_real)

lemma nonneg_foldl: "nonneg acc \<Longrightarrow> nonneg (foldl f64_add acc (map f64_abs xs))"
  by (induction xs arbitrary: acc) (auto simp: nonneg_add_abs)

lemma nonneg_add_eps:
  assumes "nonneg x"
  shows "f64_add x (f64_of_real (1 / 1000000)) \<noteq> Fin 0"
proof (cases x)
  case (Fin a)
  obtain e where e: "f64_of_real (1 / 1000000) = Fin e" "1 / 2 ^ 20 \<le> e"
    using millionth by blast
  from Fin assms have "1 / 2 ^ 20 \<le> a + e"
    using e(2) by simp
  then have "f64_round (1 / 2 ^ 20) \<le> f64_round (a + e)"
    by (rule f64_round_mono)
  moreover have "f64_round (1 / 2 ^ 20) = 1 / 2 ^ 20"
    using f64_round_dyadic [of 1 20] by simp
  ultimately have "0 < f64_round (a + e)" by simp
  then have "f64_of_real (a + e) \<noteq> Fin 0"
    using f64_of_real_cases [of "a + e"] by auto
  with Fin e(1) show ?thesis by simp
next
  case PInf
  obtain e where "f64_of_real (1 / 1000000) = Fin e"
    using millionth by blast
  with PInf show ?thesis by simp
next
  case NInf
  with assms show ?thesis by simp
next
  case NaN
  then show ?thesis by simp
qed

lemma imbalance_pct_Inr: "\<exists>pct. imbalance_pct amts = Inr pct"
proof -
  have "nonneg (f64_sum (map f64_abs amts))"
    unfolding f64_sum_def by (rule nonneg_foldl) simp
  then have "f64_add (f64_sum (map f64_abs amts)) (f64_of_real (1 / 1000000)) \<noteq> Fin 0"
    by (rule nonneg_add_eps)
  then show ?thesis
    by (simp add: imbalance_pct_def py_truediv_def Let_def)
qed

lemma report_Inr:
  assumes "''Has Anomaly'' \<in> set (columns results)" "''amount'' \<in> set (columns results)"
    "set cols \<subseteq> set (columns results)"
  shows "\<exists>p. report results cols = Inr p"
proof -
  from assms(1) obtain an where an: "filter_col results ''Has Anomaly'' = Inr an"
      "columns an = columns results"
    by (auto dest: filter_col_Inr)
  from assms(2) obtain as where as: "amounts results = Inr as"
    by (auto dest: amounts_Inr)
  obtain pct where pct: "imbalance_pct (drop_nulls as) = Inr pct"
    using imbalance_pct_Inr by blast
  from assms(3) an(2) obtain counts where "chart_counts an cols = Inr counts"
    using chart_counts_Inr [of cols an] by auto
  with an as pct show ?thesis
    by (simp add: report_def)
qed

lemma map_of_date_part:
  "map_of (date_part df) n =
     (if n = ''posting_date''
      then (case date_candidates df of [] \<Rightarrow> None | (m, c) # rest \<Rightarrow> Some c)
      else None)"
  by (auto simp: date_part_def split: list.splits)

lemma map_of_selected_description:
  "map_of (selected df amt) ''description'' =
     (case candidates (contains ''description'') df of [] \<Rightarrow> None | (m, c) # rest \<Rightarrow> Some c)"
  by (simp add: selected_eq key_fields_def map_of_key_field map_of_date_part map_add_def
      split: option.splits list.splits)

lemma map_of_selected_posting_date:
  "map_of (selected df amt) ''posting_date'' =
     (case date_candidates df of [] \<Rightarrow> None | (m, c) # rest \<Rightarrow> Some c)"
  by (simp add: selected_eq key_fields_def map_of_key_field map_of_date_part map_add_def
      split: option.splits list.splits)

lemma dtype_of_clean: "clean sel = Inr cleaned \<Longrightarrow> dtype_of cleaned n = dtype_of sel n"
  unfolding dtype_of_def by (rule clean_dtype)

lemma dtype_of_parsed_description:
  "dtype_of (smart_date_parsing pl sel) ''description'' = dtype_of sel ''description''"
  by (simp add: dtype_of_def map_of_smart_date_parsing_other)

lemma dtype_of_parsed_date:
  "dtype_of (smart_date_parsing pl sel) ''posting_date'' =
     (case dtype_of sel ''posting_date'' of
        None \<Rightarrow> None
      | Some t \<Rightarrow> if t = Utf8 then Some Datetime else Some t)"
  by (auto simp: dtype_of_def smart_date_parsing_eq map_of_parse_first_format split: option.splits)

lemma suspicious_description_Inl_iff:
  "(\<exists>e. suspicious_description cleaned = Inl e) \<longleftrightarrow>
   (\<exists>t. dtype_of cleaned ''description'' = Some t \<and> t \<noteq> Utf8)"
  by (auto simp: suspicious_description_def dtype_of_def split: option.splits)

lemma weekend_entry_Inl_iff:
  "(\<exists>e. weekend_entry cleaned = Inl e) \<longleftrightarrow>
   (\<exists>t. dtype_of cleaned ''posting_date'' = Some t \<and> t \<noteq> Datetime)"
  by (auto simp: weekend_entry_def dtype_of_def split: option.splits)

lemma with_anomaly_exprs:
  assumes amt: "''amount'' \<in> set (columns cleaned)"
  shows "(if (\<exists>e. suspicious_description cleaned = Inl e) \<or> (\<exists>e. weekend_entry cleaned = Inl e)
          then \<exists>e. with_columns cleaned (anomaly_exprs pl cleaned) = Inl e
          else \<exists>flags. with_columns cleaned (anomaly_exprs pl cleaned) = Inr (cleaned @ flags)
                 \<and> columns flags = [''Round Large Amount'', ''Near-Zero Amount'',
                      ''Suspicious Description'', ''Weekend Entry'', ''Duplicate Entry'',
                      ''High-Value Entry'', ''Repeating Entry''])"
proof -
  from amt obtain as where as: "amounts cleaned = Inr as"
    by (auto dest: amounts_Inr)
  from amt obtain a where a: "get_column cleaned ''amount'' = Inr a"
    by (auto dest: get_column_Inr)
  have "\<exists>c. round_large_amount cleaned = Inr c"
    by (simp add: round_large_amount_def as)
  then obtain c1 where c1: "round_large_amount cleaned = Inr c1" ..
  have "\<exists>c. near_zero_amount cleaned = Inr c"
    by (simp add: near_zero_amount_def as)
  then obtain c2 where c2: "near_zero_amount cleaned = Inr c2" ..
  have "\<exists>c. duplicate_entry cleaned = Inr c"
    by (simp add: duplicate_entry_def Let_def)
  then obtain c5 where c5: "duplicate_entry cleaned = Inr c5" ..
  have "\<exists>c. high_value_entry pl cleaned = Inr c"
    by (simp add: high_value_entry_def as Let_def)
  then obtain c6 where c6: "high_value_entry pl cleaned = Inr c6" ..
  have "\<exists>c. repeating_entry cleaned = Inr c"
    by (simp add: repeating_entry_def a split: option.splits)
  then obtain c7 where c7: "repeating_entry cleaned = Inr c7" ..
  show ?thesis
  proof (cases "suspicious_description cleaned")
    case (Inl e)
    then show ?thesis
      by (simp add: with_columns_def anomaly_exprs_def c1 c2)
  next
    case c3: (Inr c3)
    show ?thesis
    proof (cases "weekend_entry cleaned")
      case (Inl e)
      then show ?thesis
        by (simp add: with_columns_def anomaly_exprs_def c1 c2 c3)
    next
      case c4: (Inr c4)
      show ?thesis
        by (simp add: with_columns_def anomaly_exprs_def c1 c2 c3 c4 c5 c6 c7 columns_def)
    qed
  qed
qed

section \<open>When the request fails\<close>

lemma anomaly_cols_subset: "set (anomaly_cols results) \<subseteq> set (columns results)"
  by (auto simp: anomaly_cols_def)

lemma build_results_cases:
  assumes amt: "''amount'' \<in> set (columns cleaned)"
  shows "(if (\<exists>e. suspicious_description cleaned = Inl e) \<or> (\<exists>e. weekend_entry cleaned = Inl e)
          then \<exists>e. build_results pl cleaned = Inl e
          else \<exists>results cols. build_results pl cleaned = Inr (results, cols)
                 \<and> ''Has Anomaly'' \<in> set (columns results)
                 \<and> ''amount'' \<in> set (columns results)
                 \<and> set cols \<subseteq> set (columns results))"
proof (cases "(\<exists>e. suspicious_description cleaned = Inl e) \<or> (\<exists>e. weekend_entry cleaned = Inl e)")
  case True
  with with_anomaly_exprs [OF amt, of pl]
  obtain e where "with_columns cleaned (anomaly_exprs pl cleaned) = Inl e"
    by auto
  with True show ?thesis
    by (auto simp: build_results_def)
next
  case False
  with with_anomaly_exprs [OF amt, of pl]
  obtain flags where r0: "with_columns cleaned (anomaly_exprs pl cleaned) = Inr (cleaned @ flags)"
    by auto
  define results0 where "results0 = cleaned @ flags"
  have a0: "''amount'' \<in> set (columns results0)"
    using amt by (simp add: results0_def columns_append)
  obtain hc where hc: "any_horizontal results0 (anomaly_cols results0) = Inr hc"
    using any_horizontal_Inr [OF anomaly_cols_subset] by blast
  have "with_columns results0 [(''Has Anomaly'', any_horizontal results0 (anomaly_cols results0))]
          = Inr (results0 @ [(''Has Anomaly'', hc)])"
    by (simp add: with_columns_def hc)
  then have br: "build_results pl cleaned
              = Inr (results0 @ [(''Has Anomaly'', hc)], anomaly_cols results0)"
    unfolding results0_def by (simp add: build_results_def r0 Let_def)
  have "''Has Anomaly'' \<in> set (columns (results0 @ [(''Has Anomaly'', hc)]))"
    by (simp add: columns_def)
  moreover have "''amount'' \<in> set (columns (results0 @ [(''Has Anomaly'', hc)]))"
    using a0 by (simp add: columns_append)
  moreover have "set (anomaly_cols results0) \<subseteq> set (columns (results0 @ [(''Has Anomaly'', hc)]))"
    using anomaly_cols_subset [of results0] by (auto simp: columns_append)
  ultimately show ?thesis
    using False br by auto
qed

lemma pipeline_description_raises:
  assumes "clean (smart_date_parsing pl (selected df amt)) = Inr cleaned"
  shows "(\<exists>e. suspicious_description cleaned = Inl e) \<longleftrightarrow> description_raises df"
proof -
  have "dtype_of cleaned ''description'' = dtype_of (selected df amt) ''description''"
    using assms by (simp add: dtype_of_clean dtype_of_parsed_description)
  then show ?thesis
    by (auto simp: suspicious_description_Inl_iff description_raises_def dtype_of_def
        map_of_selected_description split: list.splits)
qed

lemma pipeline_date_raises:
  assumes "clean (smart_date_parsing pl (selected df amt)) = Inr cleaned"
  shows "(\<exists>e. weekend_entry cleaned = Inl e) \<longleftrightarrow> date_raises df"
proof -
  have "dtype_of cleaned ''posting_date'' =
          (case dtype_of (selected df amt) ''posting_date'' of
             None \<Rightarrow> None
           | Some t \<Rightarrow> if t = Utf8 then Some Datetime else Some t)"
    using assms by (simp add: dtype_of_clean dtype_of_parsed_date)
  then show ?thesis
    by (auto simp: weekend_entry_Inl_iff date_raises_def dtype_of_def
        map_of_selected_posting_date split: list.splits if_splits)
qed

lemma analyze_body_after_selection:
  assumes h: "height df \<noteq> 0" and amt: "amount_series pl df = Inr amt"
  shows "(\<exists>e. analyze_body pl df = Inl e) \<longleftrightarrow> description_raises df \<or> date_raises df"
proof -
  define sel where "sel = smart_date_parsing pl (selected df amt)"
  have a: "''amount'' \<in> set (columns sel)"
    by (simp add: sel_def)
  then obtain cleaned where cl: "clean sel = Inr cleaned"
    using clean_succeeds by blast
  have ac: "''amount'' \<in> set (columns cleaned)"
    using a clean_columns [OF cl] by simp
  have d: "(\<exists>e. suspicious_description cleaned = Inl e) \<longleftrightarrow> description_raises df"
    using cl unfolding sel_def by (rule pipeline_description_raises)
  have w: "(\<exists>e. weekend_entry cleaned = Inl e) \<longleftrightarrow> date_raises df"
    using cl unfolding sel_def by (rule pipeline_date_raises)
  have body: "analyze_body pl df =
                (case build_results pl cleaned of
                   Inl e \<Rightarrow> Inl e
                 | Inr (results, cols) \<Rightarrow> report results cols)"
    using h by (simp add: analyze_body_def amt sel_def [symmetric] cl)
  show ?thesis
  proof (cases "description_raises df \<or> date_raises df")
    case True
    with d w build_results_cases [OF ac, of pl]
    obtain e where "build_results pl cleaned = Inl e"
      by auto
    with True body show ?thesis by simp
  next
    case False
    with d w build_results_cases [OF ac, of pl]
    obtain results cols where br: "build_results pl cleaned = Inr (results, cols)"
        and cols: "''Has Anomaly'' \<in> set (columns results)" "''amount'' \<in> set (columns results)"
          "set cols \<subseteq> set (columns results)"
      by auto
    from report_Inr [OF cols] obtain p where "report results cols = Inr p" ..
    with False body br show ?thesis by simp
  qed
qed

text \<open>
  C9. The analyze operation returns a failure exactly when the decoded table has no
  rows, when no amount-bearing column is found, or when a later step raises: the
  description column is not a string column (the \<open>str\<close> namespace raises) or the date
  column is neither a string column nor a temporal one (the \<open>dt\<close> namespace raises). No
  other step of the analysis raises. The first two failures carry the messages of the
  source. A response is either a failure with its error or a success with its payload,
  never both, and the handler turns every exception of the body into a failure.
\<close>

theorem analyze_je_fails_exactly:
  "(is_failure (analyze_je pl df) \<longleftrightarrow>
      height df = 0 \<or> \<not> amount_bearing df \<or> description_raises df \<or> date_raises df)
   \<and> (height df = 0 \<longrightarrow> analyze_je pl df = Failure file_is_empty)
   \<and> (height df \<noteq> 0 \<and> \<not> amount_bearing df \<longrightarrow> analyze_je pl df = Failure no_amount_column)
   \<and> (analyze_je pl df = Failure e \<longleftrightarrow> analyze_body pl df = Inl e)"
proof -
  have handler: "analyze_je pl df = Failure e \<longleftrightarrow> analyze_body pl df = Inl e" for e
    by (simp add: analyze_je_def split: sum.splits)
  have fail: "is_failure (analyze_je pl df) \<longleftrightarrow> (\<exists>e. analyze_body pl df = Inl e)"
    by (simp add: analyze_je_def is_failure_def split: sum.splits)
  have empty: "analyze_je pl df = Failure file_is_empty" if "height df = 0"
    using that by (simp add: analyze_je_def analyze_body_def)
  have none: "analyze_je pl df = Failure no_amount_column"
    if "height df \<noteq> 0" "\<not> amount_bearing df"
    using that amount_series_cases [of df pl]
    by (auto simp: analyze_je_def analyze_body_def)
  have iff: "is_failure (analyze_je pl df) \<longleftrightarrow>
      height df = 0 \<or> \<not> amount_bearing df \<or> description_raises df \<or> date_raises df"
  proof (cases "height df = 0")
    case True
    with empty show ?thesis by (simp add: is_failure_def)
  next
    case h: False
    show ?thesis
    proof (cases "amount_bearing df")
      case False
      with h none show ?thesis by (simp add: is_failure_def)
    next
      case True
      with amount_series_cases [of df pl] obtain amt where "amount_series pl df = Inr amt"
        by auto
      from analyze_body_after_selection [OF h this] h True show ?thesis
        by (simp add: fail)
    qed
  qed
  from iff empty none handler show ?thesis by blast
qed

section \<open>The flags that do not count as anomalies\<close>

lemma ledger3_amount_series:
  "amount_series pl ledger3 = Inr [Some (Fin (1 / 2)), Some (Fin 5000), Some (Fin (1003 / 4))]"
  by (simp add: ledger3_def step1_defs string_defs)

lemma ledger3_selected:
  "selected ledger3 [Some (Fin (1 / 2)), Some (Fin 5000), Some (Fin (1003 / 4))] = ledger3_cleaned"
  by (simp add: ledger3_def ledger3_cleaned_def step2_defs candidates_def string_defs)

lemma ledger3_parsing: "smart_date_parsing pl ledger3_cleaned = ledger3_cleaned"
  by (simp add: ledger3_cleaned_def smart_date_parsing_eq)

lemma ledger3_clean: "clean ledger3_cleaned = Inr ledger3_cleaned"
  by (simp add: ledger3_cleaned_def clean_def frame_defs)

lemma ledger3_exprs:
  "with_columns ledger3_cleaned (anomaly_exprs pl ledger3_cleaned)
     = Inr (ledger3_cleaned @ ledger3_flags)"
  by (simp add: ledger3_cleaned_def ledger3_flags_def flag_defs frame_defs string_defs
      numeral_3_eq_3 frac_def)

lemma ledger3_anomaly_cols:
  "anomaly_cols (ledger3_cleaned @ ledger3_flags)
     = [''Weekend Entry'', ''Duplicate Entry'', ''High-Value Entry'', ''Repeating Entry'']"
  by (simp add: ledger3_cleaned_def ledger3_flags_def anomaly_cols_def columns_def)

lemma ledger3_any_horizontal:
  "any_horizontal (ledger3_cleaned @ ledger3_flags)
     [''Weekend Entry'', ''Duplicate Entry'', ''High-Value Entry'', ''Repeating Entry'']
   = Inr \<lparr>dtype = Boolean, cells = [VBool False, VBool False, VBool False]\<rparr>"
  by (simp add: ledger3_cleaned_def ledger3_flags_def any_horizontal_def get_column_def
      height_def or_cell_def numeral_3_eq_3)

lemma ledger3_build_results:
  "build_results pl ledger3_cleaned =
     Inr (ledger3_results,
          [''Weekend Entry'', ''Duplicate Entry'', ''High-Value Entry'', ''Repeating Entry''])"
proof -
  have "with_columns (ledger3_cleaned @ ledger3_flags)
          [(''Has Anomaly'', Inr \<lparr>dtype = Boolean, cells = [VBool False, VBool False, VBool False]\<rparr>)]
        = Inr ledger3_results"
    by (simp add: with_columns_def ledger3_results_def)
  then show ?thesis
    by (simp add: build_results_def ledger3_exprs ledger3_anomaly_cols ledger3_any_horizontal)
qed

lemma ledger3_anomalies:
  "filter_col ledger3_results ''Has Anomaly'' = Inr (filter_rows [False, False, False] ledger3_results)"
  by (simp add: ledger3_results_def ledger3_cleaned_def ledger3_flags_def filter_col_def get_column_def)

lemma ledger3_sum: "f64_sum [Fin (1 / 2), Fin 5000, Fin (1003 / 4)] = Fin (21005 / 4)"
  by (simp add: f64_sum_def f64_exact)

lemma ledger3_net: "py_round2 (Fin (21005 / 4)) = Fin (21005 / 4)"
  by (simp add: f64_exact)

text \<open>The percentage of the example: every intermediate result lies between two
  doubles close enough to fix the rounded value.\<close>

lemma ledger3_imbalance:
  "\<exists>pct. imbalance_pct [Fin (1 / 2), Fin 5000, Fin (1003 / 4)] = Inr pct
     \<and> py_round2 pct = Fin 100"
proof -
  obtain e where e: "f64_of_real (1 / 1000000) = Fin e" "1 / 2 ^ 20 \<le> e" "e \<le> 1 / 2 ^ 19"
    using millionth by blast
  have r1: "f64_round (21005 / 4) = 21005 / 4"
    using f64_round_dyadic [of 21005 2] by simp
  have r2: "f64_round (2753167361 / 524288) = 2753167361 / 524288"
    using f64_round_dyadic [of 2753167361 19] by simp
  have "\<exists>d. f64_of_real (21005 / 4 + e) = Fin d \<and> 21005 / 4 \<le> d \<and> d \<le> 2753167361 / 524288"
    using r1 r2 f64_max_pos f64_max_ge e(2,3) by (intro f64_of_real_between) simp_all
  then obtain d where d: "f64_of_real (21005 / 4 + e) = Fin d" "21005 / 4 \<le> d"
      "d \<le> 2753167361 / 524288"
    by blast
  have r3: "f64_round (2147483647 / 2147483648) = 2147483647 / 2147483648"
    using f64_round_dyadic [of 2147483647 31] by simp
  have "2147483647 / 2147483648 \<le> (21005 / 4) / d"
    using d(2,3) by (simp add: le_divide_eq)
  moreover have "(21005 / 4) / d \<le> 1"
    using d(2) by (simp add: divide_le_eq)
  ultimately have "\<exists>q. f64_of_real ((21005 / 4) / d) = Fin q \<and> 2147483647 / 2147483648 \<le> q \<and> q \<le> 1"
    using r3 f64_max_pos f64_max_ge by (intro f64_of_real_between) simp_all
  then obtain q where q: "f64_of_real ((21005 / 4) / d) = Fin q" "2147483647 / 2147483648 \<le> q"
      "q \<le> 1"
    by blast
  have r4: "f64_round (1677721599 / 16777216) = 1677721599 / 16777216"
    using f64_round_dyadic [of 1677721599 24] by simp
  have r5: "f64_round 100 = 100"
    by (rule f64_round_numeral) simp
  have "\<exists>p. f64_of_real (q * 100) = Fin p \<and> 1677721599 / 16777216 \<le> p \<and> p \<le> 100"
    using r4 r5 f64_max_pos f64_max_ge q(2,3) by (intro f64_of_real_between) simp_all
  then obtain p where p: "f64_of_real (q * 100) = Fin p" "1677721599 / 16777216 \<le> p" "p \<le> 100"
    by blast
  have "of_int 10000 - 1 / 2 < p * 100" "p * 100 \<le> of_int 10000"
    using p(2,3) by simp_all
  then have n: "round_half_even (p * 100) = 10000"
    by (rule round_half_even_near)
  have d0: "d \<noteq> 0" using d(2) by simp
  have "imbalance_pct [Fin (1 / 2), Fin 5000, Fin (1003 / 4)] = Inr (Fin p)"
    using ledger3_sum e(1) d(1) d0 q(1) p(1)
    by (simp add: imbalance_pct_def py_truediv_def Let_def)
  moreover have "py_round2 (Fin p) = Fin 100"
    using n by (simp add: f64_of_real_numeral)
  ultimately show ?thesis by simp
qed

lemma ledger3_report:
  "report ledger3_results
     [''Weekend Entry'', ''Duplicate Entry'', ''High-Value Entry'', ''Repeating Entry'']
   = Inr \<lparr>summary =
           \<lparr>total_entries = 3, net_balance = Fin (21005 / 4), imbalance = Fin 100,
            anomalies_found = 0\<rparr>,
         charts_anomalies =
           [(''Weekend Entry'', 0), (''Duplicate Entry'', 0),
            (''High-Value Entry'', 0), (''Repeating Entry'', 0)],
         anomalies_data = []\<rparr>"
proof -
  obtain pct where pct: "imbalance_pct [Fin (1 / 2), Fin 5000, Fin (1003 / 4)] = Inr pct"
      "py_round2 pct = Fin 100"
    using ledger3_imbalance by blast
  show ?thesis
    apply (simp add: report_def ledger3_anomalies)
    apply (simp add: ledger3_results_def ledger3_cleaned_def ledger3_flags_def amounts_def
        get_column_def f64_of_cell_def filter_col_def filter_rows_def height_def to_dicts_def
        pct ledger3_sum f64_exact)
    done
qed

text \<open>
  C1 (the code departs from the claim). The claim: \<open>Has Anomaly\<close> is the OR of all seven
  flags. The code takes the OR over \<open>anomaly_cols\<close>, the columns whose name contains
  \<open>"Entry"\<close>: Weekend Entry, Duplicate Entry, High-Value Entry and Repeating Entry.
  Round Large Amount, Near-Zero Amount and Suspicious Description are left out. In the
  three-row example each row has exactly one of these three flags true, and
  \<open>Has Anomaly\<close> is false in every row.
\<close>

theorem has_anomaly_leaves_out_three_flags:
  "clean (smart_date_parsing pl
       (selected ledger3 [Some (Fin (1 / 2)), Some (Fin 5000), Some (Fin (1003 / 4))]))
     = Inr ledger3_cleaned
   \<and> build_results pl ledger3_cleaned =
       Inr (ledger3_results,
            [''Weekend Entry'', ''Duplicate Entry'', ''High-Value Entry'', ''Repeating Entry''])
   \<and> map_of ledger3_results ''Near-Zero Amount''
       = Some \<lparr>dtype = Boolean, cells = [VBool True, VBool False, VBool False]\<rparr>
   \<and> map_of ledger3_results ''Round Large Amount''
       = Some \<lparr>dtype = Boolean, cells = [VBool False, VBool True, VBool False]\<rparr>
   \<and> map_of ledger3_results ''Suspicious Description''
       = Some \<lparr>dtype = Boolean, cells = [VBool False, VBool False, VBool True]\<rparr>
   \<and> map_of ledger3_results ''Has Anomaly''
       = Some \<lparr>dtype = Boolean, cells = [VBool False, VBool False, VBool False]\<rparr>"
proof -
  have "map_of ledger3_results ''Near-Zero Amount''
          = Some \<lparr>dtype = Boolean, cells = [VBool True, VBool False, VBool False]\<rparr>"
    and "map_of ledger3_results ''Round Large Amount''
          = Some \<lparr>dtype = Boolean, cells = [VBool False, VBool True, VBool False]\<rparr>"
    and "map_of ledger3_results ''Suspicious Description''
          = Some \<lparr>dtype = Boolean, cells = [VBool False, VBool False, VBool True]\<rparr>"
    and "map_of ledger3_results ''Has Anomaly''
          = Some \<lparr>dtype = Boolean, cells = [VBool False, VBool False, VBool False]\<rparr>"
    by (simp_all add: ledger3_results_def ledger3_cleaned_def ledger3_flags_def)
  then show ?thesis
    by (simp add: ledger3_selected ledger3_parsing ledger3_clean ledger3_build_results)
qed

text \<open>
  C2 (the code departs from the claim). The claim: \<open>charts.anomalies\<close> has an entry for
  each of the seven flags, with the number of cleaned rows where the flag is true. The
  mapping is built over \<open>anomaly_cols\<close>, so it has the four \<open>Entry\<close> flags only, and it
  counts inside the rows with \<open>Has Anomaly\<close>. In the three-row example one cleaned row
  has Round Large Amount, one has Near-Zero Amount and one has Suspicious Description:
  the mapping has no entry for any of the three. This is the defect of C1.
\<close>

theorem charts_anomalies_has_four_entries:
  "analyze_je pl ledger3 =
     Success
       \<lparr>summary =
          \<lparr>total_entries = 3, net_balance = Fin (21005 / 4), imbalance = Fin 100,
           anomalies_found = 0\<rparr>,
        charts_anomalies =
          [(''Weekend Entry'', 0), (''Duplicate Entry'', 0),
           (''High-Value Entry'', 0), (''Repeating Entry'', 0)],
        anomalies_data = []\<rparr>"
proof -
  have "height ledger3 \<noteq> 0"
    by (simp add: ledger3_def height_def)
  then show ?thesis
    by (simp add: analyze_je_def analyze_body_def ledger3_amount_series ledger3_selected
        ledger3_parsing ledger3_clean ledger3_build_results ledger3_report)
qed

section \<open>The theorems at concrete tables\<close>

lemmas ref_defs = ref_polars_def parse_decimal_def digit_val_def f64_exact

lemma ref_strptime_examples:
  "ref_strptime ''%Y-%m-%d'' ''2024-01-06'' = Some 1704499200000000"
  "ref_strptime ''%Y-%m-%d'' ''2024-01-07'' = Some 1704585600000000"
  "ref_strptime ''%Y-%m-%d'' ''2024-01-08'' = Some 1704672000000000"
  "ref_strptime ''%Y-%m-%d'' ''not a date'' = None"
  "ref_strptime ''%Y-%m-%d'' ''bad'' = None"
  by (simp_all add: ref_strptime_def digit_val_def days_in_month_def days_from_civil_def)

lemma mixed_candidates:
  "debit_candidates mixed_table =
     [(''Debit'', \<lparr>dtype = Int64, cells = [VInt 100, Null, VInt 7]\<rparr>)]"
  "credit_candidates mixed_table =
     [(''Credit'', \<lparr>dtype = Utf8, cells = [VStr ''30'', VStr ''n/a'', Null]\<rparr>)]"
  "amount_candidates mixed_table =
     [(''Amount'', \<lparr>dtype = Utf8, cells = [VStr ''999'', VStr ''999'', VStr ''999'']\<rparr>)]"
  by (simp_all add: mixed_table_def debit_candidates_def credit_candidates_def
      amount_candidates_def candidates_def string_defs)

lemma mixed_series:
  "map2 f64_sub
     (dr_cr_series ref_polars \<lparr>dtype = Int64, cells = [VInt 100, Null, VInt 7]\<rparr>)
     (dr_cr_series ref_polars \<lparr>dtype = Utf8, cells = [VStr ''30'', VStr ''n/a'', Null]\<rparr>)
   = [Fin 70, Fin 0, Fin 7]"
  by (simp add: dr_cr_series_def dr_cr_cell_def cast_utf8_def fill_null_def f64_sub_def
      ref_utf8_of_cell_def show_int_def ref_defs)

lemma mixed_selected:
  "smart_date_parsing ref_polars
     (selected mixed_table [Some (Fin 70), Some (Fin 0), Some (Fin 7)]) = mixed_selected"
proof -
  have "selected mixed_table [Some (Fin 70), Some (Fin 0), Some (Fin 7)] =
     [(''amount'', \<lparr>dtype = Float64,
         cells = [VFloat (Fin 70), VFloat (Fin 0), VFloat (Fin 7)]\<rparr>),
      (''posting_date'', \<lparr>dtype = Utf8,
         cells = [VStr ''2024-01-06'', VStr ''not a date'', VStr ''2024-01-08'']\<rparr>)]"
    by (simp add: mixed_table_def step2_defs candidates_def string_defs)
  then show ?thesis
    by (simp add: smart_date_parsing_eq parse_first_format_def strptime_cell_def
        ref_polars_def ref_strptime_examples mixed_selected_def)
qed

lemma wf_mixed_table: "wf_frame mixed_table"
  by (simp add: wf_frame_def mixed_table_def columns_def height_def)

lemma amount_table_series:
  "cast_f64 ref_polars (VStr ''12.5'') = Some (Fin (25 / 2))"
  "cast_f64 ref_polars (VStr ''abc'') = None"
  "cast_f64 ref_polars (VStr ''3'') = Some (Fin 3)"
  by (simp_all add: cast_f64_def ref_defs)

lemma amount_table_candidates:
  "debit_candidates amount_table = []"
  "amount_candidates amount_table =
     [(''Amount'', \<lparr>dtype = Utf8, cells = [VStr ''12.5'', VStr ''abc'', VStr ''3'']\<rparr>)]"
  by (simp_all add: amount_table_def debit_candidates_def amount_candidates_def candidates_def
      string_defs)

lemma amount_selected:
  "smart_date_parsing ref_polars
     (selected amount_table [Some (Fin (25 / 2)), None, Some (Fin 3)]) = amount_selected"
proof -
  have "selected amount_table [Some (Fin (25 / 2)), None, Some (Fin 3)] =
     [(''amount'', \<lparr>dtype = Float64, cells = [VFloat (Fin (25 / 2)), Null, VFloat (Fin 3)]\<rparr>),
      (''posting_date'', \<lparr>dtype = Utf8,
         cells = [VStr ''2024-01-06'', VStr ''2024-01-07'', VStr ''bad'']\<rparr>)]"
    by (simp add: amount_table_def step2_defs candidates_def string_defs)
  then show ?thesis
    by (simp add: smart_date_parsing_eq parse_first_format_def strptime_cell_def
        ref_polars_def ref_strptime_examples amount_selected_def)
qed

theorem clean_keeps_exactly_the_usable_rows_witness:
  "wf_frame amount_selected
   \<and> ''amount'' \<in> set (columns amount_selected)
   \<and> map (survives amount_selected) [0..<height amount_selected] = [True, False, False]
   \<and> clean amount_selected = Inr amount_cleaned
   \<and> height amount_cleaned \<le> height amount_selected"
proof -
  have wf: "wf_frame amount_selected"
    by (simp add: wf_frame_def amount_selected_def columns_def height_def)
  have amt: "''amount'' \<in> set (columns amount_selected)"
    by (simp add: amount_selected_def columns_def)
  have h: "[0..<height amount_selected] = [0, 1, 2]"
    by (simp add: amount_selected_def height_def upt_rec)
  have surv: "map (survives amount_selected) [0..<height amount_selected] = [True, False, False]"
    unfolding h by (simp add: survives_def amount_selected_def)
  have kept: "filter_rows [True, False, False] amount_selected = amount_cleaned"
    by (simp add: amount_selected_def amount_cleaned_def filter_rows_def)
  from clean_keeps_exactly_the_usable_rows [OF wf amt] wf amt surv show ?thesis
    by (simp add: kept)
qed

theorem debit_credit_takes_priority_witness:
  "debit_candidates mixed_table \<noteq> [] \<and> credit_candidates mixed_table \<noteq> []
   \<and> amount_candidates mixed_table \<noteq> []
   \<and> amount_series ref_polars mixed_table = Inr [Some (Fin 70), Some (Fin 0), Some (Fin 7)]
   \<and> debit_candidates amount_table = [] \<and> amount_candidates amount_table \<noteq> []
   \<and> amount_series ref_polars amount_table = Inr [Some (Fin (25 / 2)), None, Some (Fin 3)]
   \<and> utf8_to_f64 ref_polars ''abc'' = None \<and> cast_f64 ref_polars (VStr ''abc'') = None"
proof -
  have bad: "utf8_to_f64 ref_polars ''abc'' = None"
    by (simp add: ref_defs)
  note pair = debit_credit_takes_priority
    [where df = mixed_table and pl = ref_polars and dn = "''Debit''" and cn = "''Credit''"
       and ds = "[]" and cs = "[]"
       and dr_col = "\<lparr>dtype = Int64, cells = [VInt 100, Null, VInt 7]\<rparr>"
       and cr_col = "\<lparr>dtype = Utf8, cells = [VStr ''30'', VStr ''n/a'', Null]\<rparr>"]
  note single = debit_credit_takes_priority
    [where df = amount_table and pl = ref_polars and an = "''Amount''" and rest = "[]"
       and amt_col = "\<lparr>dtype = Utf8, cells = [VStr ''12.5'', VStr ''abc'', VStr ''3'']\<rparr>"
       and s = "''abc''"]
  from pair have a: "amount_series ref_polars mixed_table
      = Inr [Some (Fin 70), Some (Fin 0), Some (Fin 7)]"
    by (simp add: mixed_candidates mixed_series)
  from single have b: "amount_series ref_polars amount_table
      = Inr [Some (Fin (25 / 2)), None, Some (Fin 3)]"
    by (simp add: amount_table_candidates amount_table_series)
  from single bad have c: "cast_f64 ref_polars (VStr ''abc'') = None"
    by simp
  from a b c bad show ?thesis
    by (simp add: mixed_candidates amount_table_candidates)
qed

theorem debit_credit_amount_never_null_witness:
  "wf_frame mixed_table
   \<and> debit_candidates mixed_table \<noteq> [] \<and> credit_candidates mixed_table \<noteq> []
   \<and> amount_series ref_polars mixed_table = Inr [Some (Fin 70), Some (Fin 0), Some (Fin 7)]
   \<and> smart_date_parsing ref_polars
        (selected mixed_table [Some (Fin 70), Some (Fin 0), Some (Fin 7)]) = mixed_selected
   \<and> clean mixed_selected = Inr mixed_cleaned"
proof -
  have amt: "[Some (Fin 70), Some (Fin 0), Some (Fin 7)] =
      map Some (map2 f64_sub
        (dr_cr_series ref_polars \<lparr>dtype = Int64, cells = [VInt 100, Null, VInt 7]\<rparr>)
        (dr_cr_series ref_polars \<lparr>dtype = Utf8, cells = [VStr ''30'', VStr ''n/a'', Null]\<rparr>))"
    by (simp add: mixed_series)
  have "(case map_of mixed_selected ''posting_date'' of
           None \<Rightarrow> mixed_selected
         | Some d \<Rightarrow> filter_rows (map is_not_null (cells d)) mixed_selected) = mixed_cleaned"
    by (simp add: mixed_selected_def mixed_cleaned_def filter_rows_def is_not_null_def)
  with debit_credit_amount_never_null
    [OF wf_mixed_table mixed_candidates(1) mixed_candidates(2) mixed_selected [symmetric] amt]
  show ?thesis
    by (simp add: wf_mixed_table mixed_candidates mixed_selected)
qed

lemma eleven_quantile:
  "ref_quantile99 [Fin 1, Fin 2, Fin 3, Fin 4, Fin 5, Fin 6, Fin 7, Fin 8, Fin 9, Fin 10, Fin 1000]
     = Fin 1000"
  by (simp add: ref_quantile99_def f64_sort_def)

theorem high_value_entry_iff_witness:
  "wf_frame eleven_cleaned
   \<and> height eleven_cleaned = 11
   \<and> high_value_entry ref_polars eleven_cleaned =
       Inr (bool_column [Some False, Some False, Some False, Some False, Some False, Some False,
                         Some False, Some False, Some False, Some False, Some True])
   \<and> wf_frame ledger3_cleaned
   \<and> height ledger3_cleaned \<le> 10
   \<and> high_value_entry ref_polars ledger3_cleaned =
       Inr (bool_column [Some False, Some False, Some False])"
proof -
  have wf11: "wf_frame eleven_cleaned"
    by (simp add: wf_frame_def eleven_cleaned_def columns_def height_def)
  have h11: "height eleven_cleaned = 11"
    by (simp add: eleven_cleaned_def height_def)
  have a11: "map_of eleven_cleaned ''amount'' =
      Some \<lparr>dtype = Float64,
            cells = map VFloat [Fin 1, Fin 2, Fin 3, Fin 4, Fin 5, Fin 6, Fin 7, Fin 8, Fin 9,
                                Fin 10, Fin (- 1000)]\<rparr>"
    by (simp add: eleven_cleaned_def)
  have wf3: "wf_frame ledger3_cleaned"
    by (simp add: wf_frame_def ledger3_cleaned_def columns_def height_def)
  have h3: "height ledger3_cleaned = 3"
    by (simp add: ledger3_cleaned_def height_def)
  have a3: "map_of ledger3_cleaned ''amount'' =
      Some \<lparr>dtype = Float64, cells = map VFloat [Fin (1 / 2), Fin 5000, Fin (1003 / 4)]\<rparr>"
    by (simp add: ledger3_cleaned_def)
  from high_value_entry_iff [OF wf11 a11, of ref_polars]
  have big: "high_value_entry ref_polars eleven_cleaned =
       Inr (bool_column [Some False, Some False, Some False, Some False, Some False, Some False,
                         Some False, Some False, Some False, Some False, Some True])"
    by (simp add: h11 ref_polars_def eleven_quantile f64_ge_def)
  from high_value_entry_iff [OF wf3 a3, of ref_polars]
  have small: "high_value_entry ref_polars ledger3_cleaned =
       Inr (bool_column [Some False, Some False, Some False])"
    by (simp add: h3 numeral_3_eq_3)
  from wf11 h11 big wf3 h3 small show ?thesis by simp
qed

theorem imbalance_in_range_when_sum_finite_witness:
  "list_all f64_is_finite [Fin 100, Fin (- 50)]
   \<and> f64_is_finite (f64_sum [Fin 100, Fin (- 50)])
   \<and> (\<exists>pct. imbalance_pct [Fin 100, Fin (- 50)] = Inr pct \<and> in_percent_range (py_round2 pct))"
proof -
  have fin: "list_all f64_is_finite [Fin 100, Fin (- 50)]"
    by (simp add: f64_is_finite_def)
  have sum: "f64_sum [Fin 100, Fin (- 50)] = Fin 50"
    by (simp add: f64_sum_def f64_exact)
  from imbalance_in_range_when_sum_finite [OF fin] fin sum show ?thesis
    by (simp add: f64_is_finite_def)
qed

lemma ledger3_conditions:
  "height ledger3 \<noteq> 0" "amount_bearing ledger3" "\<not> description_raises ledger3"
  "\<not> date_raises ledger3"
  by (simp_all add: ledger3_def height_def amount_bearing_def description_raises_def
      date_raises_def step1_defs date_candidates_def string_defs)

lemma int_date_conditions: "date_raises int_date_table"
  by (simp add: int_date_table_def date_raises_def date_candidates_def candidates_def string_defs)

lemma no_amount_conditions:
  "height no_amount_table \<noteq> 0" "\<not> amount_bearing no_amount_table"
  by (simp_all add: no_amount_table_def height_def amount_bearing_def step1_defs string_defs)

theorem analyze_je_fails_exactly_witness:
  "\<not> is_failure (analyze_je ref_polars ledger3)
   \<and> date_raises int_date_table \<and> is_failure (analyze_je ref_polars int_date_table)
   \<and> height header_only = 0 \<and> analyze_je ref_polars header_only = Failure file_is_empty
   \<and> height no_amount_table \<noteq> 0 \<and> \<not> amount_bearing no_amount_table
   \<and> analyze_je ref_polars no_amount_table = Failure no_amount_column"
proof -
  have h0: "height header_only = 0"
    by (simp add: header_only_def height_def)
  from analyze_je_fails_exactly [of ref_polars ledger3] ledger3_conditions
  have ok: "\<not> is_failure (analyze_je ref_polars ledger3)"
    by simp
  from analyze_je_fails_exactly [of ref_polars int_date_table] int_date_conditions
  have date: "is_failure (analyze_je ref_polars int_date_table)"
    by simp
  from analyze_je_fails_exactly [of ref_polars header_only] h0
  have empty: "analyze_je ref_polars header_only = Failure file_is_empty"
    by simp
  from analyze_je_fails_exactly [of ref_polars no_amount_table] no_amount_conditions
  have none: "analyze_je ref_polars no_amount_table = Failure no_amount_column"
    by simp
  from ok date empty none h0 int_date_conditions no_amount_conditions show ?thesis
    by simp
qed

end
